theory Spec2Isabelle
  imports Complex_Main
begin

section \<open>Python values held in a state\<close>

text \<open>
  A state is a \<^verbatim>\<open>Dict[str, Any]\<close>. The values it holds, and the literals of a
  condition, are the values a JSON request body can carry: \<^verbatim>\<open>None\<close>, booleans, integers
  (unbounded), floats, strings, lists and dicts with string keys. A float is denoted by the
  real number it stands for, which is what Python's comparisons between numbers compare;
  the IEEE special values (infinities, NaN) have no denotation here. The item list of a
  \<open>PDict\<close> has distinct keys, in insertion order, as a Python dict has.
\<close>

datatype pyval =
    PNone
  | PBool bool
  | PInt int
  | PFloat real
  | PStr string
  | PList "pyval list"
  | PDict "(string \<times> pyval) list"

text \<open>The number a numeric value stands for (\<^verbatim>\<open>bool\<close> is a subclass of \<^verbatim>\<open>int\<close>).\<close>

fun num_of :: "pyval \<Rightarrow> real option" where
  "num_of (PBool b) = Some (if b then 1 else 0)"
| "num_of (PInt i) = Some (real_of_int i)"
| "num_of (PFloat r) = Some r"
| "num_of _ = None"

text \<open>
  Python's \<^verbatim>\<open>==\<close> on these values: numbers compare by value across the numeric types,
  strings by content, lists by length and elementwise, dicts by having the same keys with
  equal values; \<^verbatim>\<open>None\<close> equals only itself; values of different kinds are unequal.
\<close>

fun py_eq :: "pyval \<Rightarrow> pyval \<Rightarrow> bool"
  and py_eq_list :: "pyval list \<Rightarrow> pyval list \<Rightarrow> bool"
  and py_eq_items :: "(string \<times> pyval) list \<Rightarrow> (string \<times> pyval) list \<Rightarrow> bool"
where
  "py_eq PNone b = (b = PNone)"
| "py_eq (PBool x) b = (num_of b = Some (if x then 1 else 0))"
| "py_eq (PInt i) b = (num_of b = Some (real_of_int i))"
| "py_eq (PFloat r) b = (num_of b = Some r)"
| "py_eq (PStr s) b = (b = PStr s)"
| "py_eq (PList xs) b = (case b of PList ys \<Rightarrow> py_eq_list xs ys | _ \<Rightarrow> False)"
| "py_eq (PDict xs) b =
     (case b of PDict ys \<Rightarrow> length xs = length ys \<and> py_eq_items xs ys | _ \<Rightarrow> False)"
| "py_eq_list [] ys = (ys = [])"
| "py_eq_list (x # xs) ys =
     (case ys of [] \<Rightarrow> False | y # ys' \<Rightarrow> py_eq x y \<and> py_eq_list xs ys')"
| "py_eq_items [] ys = True"
| "py_eq_items (kv # xs) ys =
     (case map_of ys (fst kv) of
        None \<Rightarrow> False
      | Some w \<Rightarrow> py_eq (snd kv) w \<and> py_eq_items xs ys)"

text \<open>Python's \<^verbatim>\<open>!=\<close> on these values is the negation of \<^verbatim>\<open>==\<close>.\<close>

definition py_ne :: "pyval \<Rightarrow> pyval \<Rightarrow> bool" where
  "py_ne a b = (\<not> py_eq a b)"


section \<open>Errors\<close>

text \<open>
  Every \<^verbatim>\<open>raise\<close> of the engine is a value. The payloads are the values that the
  source formats into the message. \<open>StepRaised\<close> is an exception raised inside a node
  function, which the engine lets through unchanged.
\<close>

datatype cmp_op = Gt | Lt | Ge | Le

datatype value_error =
    MissingConditionKey
  | UnsupportedOperator pyval
  | NodeNotFound pyval
  | InvalidEdge string

datatype type_error =
    NotSupportedBetween cmp_op pyval pyval
  | Unhashable pyval
  | MustReturnDict

datatype http_detail =
    ToolNotRegistered string string
  | NormalEdgeNoTarget string
  | ConditionalInvalid string
  | ConditionalNoTarget string

datatype error =
    ValueError value_error
  | TypeError type_error
  | KeyError string
  | HTTPException nat http_detail
  | StepRaised string

section \<open>Ordering comparisons of Python values\<close>

text \<open>The four ordering operators, each read off a strict order \<open>lt\<close>.\<close>

fun cmp_with :: "('a \<Rightarrow> 'a \<Rightarrow> bool) \<Rightarrow> cmp_op \<Rightarrow> 'a \<Rightarrow> 'a \<Rightarrow> bool" where
  "cmp_with lt Gt a b = lt b a"
| "cmp_with lt Lt a b = lt a b"
| "cmp_with lt Ge a b = (\<not> lt a b)"
| "cmp_with lt Le a b = (\<not> lt b a)"

text \<open>
  Strings are ordered lexicographically by code point; on the UTF-8 bytes of a
  \<open>string\<close> that is the lexicographic order of the byte values.
\<close>

fun str_less :: "string \<Rightarrow> string \<Rightarrow> bool" where
  "str_less [] [] = False"
| "str_less [] (y # ys) = True"
| "str_less (x # xs) [] = False"
| "str_less (x # xs) (y # ys) =
     (if x = y then str_less xs ys else (of_char x :: nat) < of_char y)"

text \<open>
  \<^verbatim>\<open>left > value\<close> and its three siblings. Numbers are ordered with numbers, strings
  with strings; two lists are ordered by their first pair of unequal elements (compared
  with the same operator, which may raise), or by their lengths when one is a prefix of the
  other. Every other pair of operands raises \<^verbatim>\<open>TypeError\<close>: neither operand
  implements the comparison.
\<close>

fun py_cmp :: "cmp_op \<Rightarrow> pyval \<Rightarrow> pyval \<Rightarrow> error + bool"
  and py_cmp_list :: "cmp_op \<Rightarrow> pyval list \<Rightarrow> pyval list \<Rightarrow> error + bool"
where
  "py_cmp oper PNone b = Inl (TypeError (NotSupportedBetween oper PNone b))"
| "py_cmp oper (PBool x) b =
     (case num_of b of
        Some y \<Rightarrow> Inr (cmp_with (<) oper (if x then 1 else 0) y)
      | None \<Rightarrow> Inl (TypeError (NotSupportedBetween oper (PBool x) b)))"
| "py_cmp oper (PInt i) b =
     (case num_of b of
        Some y \<Rightarrow> Inr (cmp_with (<) oper (real_of_int i) y)
      | None \<Rightarrow> Inl (TypeError (NotSupportedBetween oper (PInt i) b)))"
| "py_cmp oper (PFloat r) b =
     (case num_of b of
        Some y \<Rightarrow> Inr (cmp_with (<) oper r y)
      | None \<Rightarrow> Inl (TypeError (NotSupportedBetween oper (PFloat r) b)))"
| "py_cmp oper (PStr s) b =
     (case b of
        PStr t \<Rightarrow> Inr (cmp_with str_less oper s t)
      | _ \<Rightarrow> Inl (TypeError (NotSupportedBetween oper (PStr s) b)))"
| "py_cmp oper (PList xs) b =
     (case b of
        PList ys \<Rightarrow> py_cmp_list oper xs ys
      | _ \<Rightarrow> Inl (TypeError (NotSupportedBetween oper (PList xs) b)))"
| "py_cmp oper (PDict d) b = Inl (TypeError (NotSupportedBetween oper (PDict d) b))"
| "py_cmp_list oper [] ys = Inr (cmp_with (<) oper 0 (length ys))"
| "py_cmp_list oper (x # xs) ys =
     (case ys of
        [] \<Rightarrow> Inr (cmp_with (<) oper (Suc (length xs)) 0)
      | y # ys' \<Rightarrow> if py_eq x y then py_cmp_list oper xs ys' else py_cmp oper x y)"

text \<open>
  The spec's words: the ordering operators require both operands to be mutually ordered
  (e.g. both numeric). For the values of a state these are the pairs that Python's data
  model orders: two numbers, two strings, and two lists whose first unequal elements (if
  any) are themselves mutually ordered. \<^verbatim>\<open>None\<close> and dicts are ordered with nothing.
\<close>

fun mutually_ordered :: "pyval \<Rightarrow> pyval \<Rightarrow> bool"
  and mutually_ordered_list :: "pyval list \<Rightarrow> pyval list \<Rightarrow> bool"
where
  "mutually_ordered PNone b = False"
| "mutually_ordered (PBool x) b = (num_of b \<noteq> None)"
| "mutually_ordered (PInt i) b = (num_of b \<noteq> None)"
| "mutually_ordered (PFloat r) b = (num_of b \<noteq> None)"
| "mutually_ordered (PStr s) b = (case b of PStr t \<Rightarrow> True | _ \<Rightarrow> False)"
| "mutually_ordered (PList xs) b =
     (case b of PList ys \<Rightarrow> mutually_ordered_list xs ys | _ \<Rightarrow> False)"
| "mutually_ordered (PDict d) b = False"
| "mutually_ordered_list [] ys = True"
| "mutually_ordered_list (x # xs) ys =
     (case ys of
        [] \<Rightarrow> True
      | y # ys' \<Rightarrow> if py_eq x y then mutually_ordered_list xs ys' else mutually_ordered x y)"

section \<open>The condition evaluator\<close>

type_synonym state = "string \<rightharpoonup> pyval"

text \<open>\<^verbatim>\<open>d.get(k)\<close> and \<^verbatim>\<open>d.get(k, default)\<close> on a dict with string keys.\<close>

definition dict_get_default :: "(string \<times> pyval) list \<Rightarrow> string \<Rightarrow> pyval \<Rightarrow> pyval" where
  "dict_get_default d k dflt = (case map_of d k of None \<Rightarrow> dflt | Some v \<Rightarrow> v)"

definition dict_get :: "(string \<times> pyval) list \<Rightarrow> string \<Rightarrow> pyval" where
  "dict_get d k = dict_get_default d k PNone"

text \<open>
  \<^verbatim>\<open>state.get(key)\<close>: the keys of a state are strings, so a hashable key of another
  type is found absent, and a list or a dict cannot be hashed.
\<close>

fun state_get :: "state \<Rightarrow> pyval \<Rightarrow> error + pyval" where
  "state_get st (PStr k) = Inr (case st k of None \<Rightarrow> PNone | Some v \<Rightarrow> v)"
| "state_get st (PList xs) = Inl (TypeError (Unhashable (PList xs)))"
| "state_get st (PDict d) = Inl (TypeError (Unhashable (PDict d)))"
| "state_get st _ = Inr PNone"

text \<open>\<^verbatim>\<open>_evaluate_condition(state, spec)\<close>, src/app/engine/graph.py lines 31-66.\<close>

definition evaluate_condition :: "state \<Rightarrow> (string \<times> pyval) list \<Rightarrow> error + bool" where
  "evaluate_condition st spec =
     (let key = dict_get spec ''key'';
          oper = dict_get_default spec ''op'' (PStr ''=='');
          val = dict_get spec ''value''
      in if key = PNone then Inl (ValueError MissingConditionKey)
         else case state_get st key of
           Inl e \<Rightarrow> Inl e
         | Inr left \<Rightarrow>
             if py_eq oper (PStr ''=='') then Inr (py_eq left val)
             else if py_eq oper (PStr ''!='') then Inr (py_ne left val)
             else if py_eq oper (PStr ''>'') then py_cmp Gt left val
             else if py_eq oper (PStr ''<'') then py_cmp Lt left val
             else if py_eq oper (PStr ''>='') then py_cmp Ge left val
             else if py_eq oper (PStr ''<='') then py_cmp Le left val
             else Inl (ValueError (UnsupportedOperator oper)))"

section \<open>The step registry\<close>

text \<open>
  A node function takes the state and returns some object, or raises. What it returns is
  a dict (the next state) or something else; what it raises is named by a string. A node
  function is taken to return: one that never returns is outside this model, as is one
  that reads or writes anything but the state it is given.
\<close>

datatype step_result = IsDict state | NotDict

type_synonym NodeFn = "state \<Rightarrow> string + step_result"

text \<open>class \<^verbatim>\<open>ToolRegistry\<close>, src/app/engine/registry.py: the field \<^verbatim>\<open>_tools\<close>.\<close>

type_synonym ToolRegistry = "string \<rightharpoonup> NodeFn"

definition ToolRegistry_init :: ToolRegistry where
  "ToolRegistry_init = Map.empty"

definition register :: "ToolRegistry \<Rightarrow> string \<Rightarrow> NodeFn \<Rightarrow> ToolRegistry" where
  "register tools name fn = tools(name \<mapsto> fn)"

definition get :: "ToolRegistry \<Rightarrow> string \<Rightarrow> error + NodeFn" where
  "get tools name =
     (case tools name of None \<Rightarrow> Inl (KeyError name) | Some fn \<Rightarrow> Inr fn)"

text \<open>The registry after a sequence of \<^verbatim>\<open>register\<close> calls on a fresh one.\<close>

fun register_all :: "ToolRegistry \<Rightarrow> (string \<times> NodeFn) list \<Rightarrow> ToolRegistry" where
  "register_all tools [] = tools"
| "register_all tools (c # cs) = register_all (register tools (fst c) (snd c)) cs"


section \<open>The graph interpreter\<close>

text \<open>
  The dataclasses of src/app/engine/graph.py. An edge is whatever object the edge dict
  holds for a node: a string, a conditional spec (a dict), \<^verbatim>\<open>None\<close>, or anything else.
  \<open>max_steps\<close> is a Python \<^verbatim>\<open>int\<close>: nothing keeps it positive.
\<close>

record Graph =
  graph_id :: string
  nodes :: "string \<rightharpoonup> NodeFn"
  edges :: "string \<rightharpoonup> pyval"
  start_node :: string
  max_steps :: int

record RunResult =
  final_state :: state
  log_list :: "string list"

text \<open>\<^verbatim>\<open>_call_node\<close>: an awaitable result is awaited, so only the final object matters.\<close>

definition call_node :: "NodeFn \<Rightarrow> state \<Rightarrow> error + state" where
  "call_node node_fn st =
     (case node_fn st of
        Inl x \<Rightarrow> Inl (StepRaised x)
      | Inr NotDict \<Rightarrow> Inl (TypeError MustReturnDict)
      | Inr (IsDict st') \<Rightarrow> Inr st')"

text \<open>
  Lines 93-96: \<^verbatim>\<open>current not in graph.nodes\<close>, then \<^verbatim>\<open>graph.nodes[current]\<close>. The keys
  of \<open>nodes\<close> are strings, so any other hashable object is not among them.
\<close>

fun node_lookup :: "Graph \<Rightarrow> pyval \<Rightarrow> error + (string \<times> NodeFn)" where
  "node_lookup g (PStr n) =
     (case nodes g n of
        None \<Rightarrow> Inl (ValueError (NodeNotFound (PStr n)))
      | Some node_fn \<Rightarrow> Inr (n, node_fn))"
| "node_lookup g (PList xs) = Inl (TypeError (Unhashable (PList xs)))"
| "node_lookup g (PDict d) = Inl (TypeError (Unhashable (PDict d)))"
| "node_lookup g c = Inl (ValueError (NodeNotFound c))"

text \<open>
  One pass through the body of the \<^verbatim>\<open>while\<close> loop (lines 93-112), up to but not
  including \<^verbatim>\<open>steps += 1\<close>: it raises, leaves the loop by \<^verbatim>\<open>break\<close>, or reaches the
  end of the body with a new value of \<^verbatim>\<open>current\<close>.
\<close>

datatype loop_exit =
    Break state "string list"
  | Continue pyval state "string list"

definition loop_body :: "Graph \<Rightarrow> pyval \<Rightarrow> state \<Rightarrow> string list \<Rightarrow> error + loop_exit" where
  "loop_body g current st lg =
     (case node_lookup g current of
        Inl e \<Rightarrow> Inl e
      | Inr (n, node_fn) \<Rightarrow>
          (case call_node node_fn st of
             Inl e \<Rightarrow> Inl e
           | Inr st' \<Rightarrow>
               (case edges g n of
                  None \<Rightarrow> Inr (Break st' (lg @ [n]))
                | Some PNone \<Rightarrow> Inr (Break st' (lg @ [n]))
                | Some (PStr t) \<Rightarrow> Inr (Continue (PStr t) st' (lg @ [n]))
                | Some (PDict d) \<Rightarrow>
                    if py_eq (dict_get d ''type'') (PStr ''conditional'') then
                      (case evaluate_condition st' d of
                         Inl e \<Rightarrow> Inl e
                       | Inr c \<Rightarrow>
                           (case map_of d (if c then ''true'' else ''false'') of
                              None \<Rightarrow> Inl (KeyError (if c then ''true'' else ''false''))
                            | Some t \<Rightarrow> Inr (Continue t st' (lg @ [n]))))
                    else Inl (ValueError (InvalidEdge n))
                | Some _ \<Rightarrow> Inl (ValueError (InvalidEdge n)))))"

text \<open>
  The \<^verbatim>\<open>while\<close> loop of \<^verbatim>\<open>run_graph\<close> (line 92), from any values of its four
  variables. It returns the state, the log and the step counter it ends with.
\<close>

function run_loop ::
  "Graph \<Rightarrow> pyval \<Rightarrow> int \<Rightarrow> state \<Rightarrow> string list \<Rightarrow> error + (state \<times> string list \<times> int)"
where
  "run_loop g current steps st lg =
     (if current \<noteq> PNone \<and> steps < max_steps g then
        (case loop_body g current st lg of
           Inl e \<Rightarrow> Inl e
         | Inr (Break st' lg') \<Rightarrow> Inr (st', lg', steps)
         | Inr (Continue current' st' lg') \<Rightarrow> run_loop g current' (steps + 1) st' lg')
      else Inr (st, lg, steps))"
  by pat_completeness auto
termination
  by (relation "measure (\<lambda>(g, current, steps, st, lg). nat (max_steps g - steps))") auto

declare run_loop.simps [simp del]

text \<open>Python's \<^verbatim>\<open>str\<close> of an integer, for the f-string of the warning.\<close>

fun digits :: "nat \<Rightarrow> string" where
  "digits n =
     (if n < 10 then [''0123456789'' ! n]
      else digits (n div 10) @ [''0123456789'' ! (n mod 10)])"

declare digits.simps [simp del]

definition str_int :: "int \<Rightarrow> string" where
  "str_int i = (if i < 0 then CHR ''-'' # digits (nat (- i)) else digits (nat i))"

text \<open>\<^verbatim>\<open>run_graph(graph, initial_state)\<close>, lines 81-121.\<close>

definition run_graph :: "Graph \<Rightarrow> state \<Rightarrow> error + RunResult" where
  "run_graph g initial_state =
     (case run_loop g (PStr (start_node g)) 0 initial_state [] of
        Inl e \<Rightarrow> Inl e
      | Inr (st, lg, steps) \<Rightarrow>
          (let st1 =
                 (if steps \<ge> max_steps g
                  then st(''_warning'' \<mapsto>
                            PStr (''Stopped after reaching max_steps='' @ str_int (max_steps g)))
                  else st);
               st2 = st1(''_execution_log'' \<mapsto> PList (map PStr lg))
           in Inr \<lparr>final_state = st2, log_list = lg\<rparr>))"

section \<open>Graph storage and graph construction\<close>

text \<open>src/app/storage.py: the store \<^verbatim>\<open>GRAPHS\<close>, passed explicitly.\<close>

type_synonym graph_store = "string \<rightharpoonup> Graph"

definition save_graph :: "graph_store \<Rightarrow> Graph \<Rightarrow> graph_store \<times> string" where
  "save_graph GRAPHS g = (GRAPHS(graph_id g \<mapsto> g), graph_id g)"

text \<open>
  The request models of src/app/main.py. An \<^verbatim>\<open>Optional\<close> field is \<open>None\<close> when the
  request leaves it out or sends \<^verbatim>\<open>null\<close>: the two cannot be told apart.
  \<^verbatim>\<open>condition_value\<close> is an \<^verbatim>\<open>Optional[Any]\<close>, with \<open>PNone\<close> for \<^verbatim>\<open>None\<close>.
\<close>

datatype edge_kind = Normal | Conditional

record NodeSpec =
  name :: string
  tool_name :: string

record EdgeSpec =
  source :: string
  edge_type :: edge_kind
  target :: "string option"
  condition_key :: "string option"
  condition_op :: "string option"
  condition_value :: pyval
  true_target :: "string option"
  false_target :: "string option"

record GraphCreateRequest =
  req_nodes :: "NodeSpec list"
  req_edges :: "EdgeSpec list"
  req_start_node :: string
  req_max_steps :: int

text \<open>An \<^verbatim>\<open>Optional[str]\<close> as the Python object it is.\<close>

fun opt_str :: "string option \<Rightarrow> pyval" where
  "opt_str None = PNone"
| "opt_str (Some s) = PStr s"

text \<open>The first loop of \<^verbatim>\<open>build_graph_from_request\<close> (lines 97-106).\<close>

fun build_nodes ::
  "ToolRegistry \<Rightarrow> NodeSpec list \<Rightarrow> (string \<rightharpoonup> NodeFn) \<Rightarrow> error + (string \<rightharpoonup> NodeFn)"
where
  "build_nodes reg [] acc = Inr acc"
| "build_nodes reg (n # ns) acc =
     (case get reg (tool_name n) of
        Inl e \<Rightarrow> Inl (HTTPException 400 (ToolNotRegistered (tool_name n) (name n)))
      | Inr fn \<Rightarrow> build_nodes reg ns (acc(name n \<mapsto> fn)))"

text \<open>The dict a conditional edge is stored as (lines 122-129).\<close>

definition conditional_spec :: "EdgeSpec \<Rightarrow> pyval" where
  "conditional_spec e =
     PDict [(''type'', PStr ''conditional''),
            (''key'', opt_str (condition_key e)),
            (''op'', opt_str (condition_op e)),
            (''value'', condition_value e),
            (''true'', opt_str (true_target e)),
            (''false'', opt_str (false_target e))]"

text \<open>The second loop (lines 108-136).\<close>

fun build_edges :: "EdgeSpec list \<Rightarrow> (string \<rightharpoonup> pyval) \<Rightarrow> error + (string \<rightharpoonup> pyval)" where
  "build_edges [] acc = Inr acc"
| "build_edges (e # es) acc =
     (case edge_type e of
        Normal \<Rightarrow>
          (case target e of
             None \<Rightarrow> Inl (HTTPException 400 (NormalEdgeNoTarget (source e)))
           | Some t \<Rightarrow> build_edges es (acc(source e \<mapsto> PStr t)))
      | Conditional \<Rightarrow>
          if condition_key e = None \<or> condition_op e = None \<or> condition_value e = PNone
          then Inl (HTTPException 400 (ConditionalInvalid (source e)))
          else if true_target e = None \<and> false_target e = None
          then Inl (HTTPException 400 (ConditionalNoTarget (source e)))
          else build_edges es (acc(source e \<mapsto> conditional_spec e)))"

text \<open>
  \<^verbatim>\<open>build_graph_from_request(req)\<close>, lines 95-147. The registry and the store are the
  globals it reads and writes; \<open>new_id\<close> is the string \<^verbatim>\<open>uuid4()\<close> gives. It returns
  the graph and the store with the graph saved.
\<close>

definition build_graph_from_request ::
  "ToolRegistry \<Rightarrow> graph_store \<Rightarrow> string \<Rightarrow> GraphCreateRequest \<Rightarrow> error + (Graph \<times> graph_store)"
where
  "build_graph_from_request reg GRAPHS new_id req =
     (case build_nodes reg (req_nodes req) Map.empty of
        Inl e \<Rightarrow> Inl e
      | Inr ns \<Rightarrow>
          (case build_edges (req_edges req) Map.empty of
             Inl e \<Rightarrow> Inl e
           | Inr es \<Rightarrow>
               (let graph = \<lparr>graph_id = new_id, nodes = ns, edges = es,
                              start_node = req_start_node req,
                              max_steps = req_max_steps req\<rparr>
                in Inr (graph, fst (save_graph GRAPHS graph)))))"


text \<open>
  The edge specifications that pass the guards of the second loop: a normal edge with a
  target; a conditional edge with key, operator and value, and at least one branch target.
\<close>

definition edge_accepted :: "EdgeSpec \<Rightarrow> bool" where
  "edge_accepted e =
     (case edge_type e of
        Normal \<Rightarrow> target e \<noteq> None
      | Conditional \<Rightarrow>
          condition_key e \<noteq> None \<and> condition_op e \<noteq> None \<and> condition_value e \<noteq> PNone
          \<and> (true_target e \<noteq> None \<or> false_target e \<noteq> None))"

section \<open>Iterations of the run loop, and replaying a trace\<close>

text \<open>
  The values of the loop's variables \<^verbatim>\<open>current\<close>, \<^verbatim>\<open>steps\<close>, \<^verbatim>\<open>state\<close> and \<^verbatim>\<open>log\<close> at
  the loop test. \<open>loop_next\<close> is one iteration that comes back to the loop test (the guard
  holds, the body reaches its end, \<^verbatim>\<open>steps += 1\<close>); \<open>loop_iters n\<close> is \<open>n\<close> of them in a
  row. A configuration is reached by a run when some number of iterations leads to it from
  the initial one.
\<close>

type_synonym config = "pyval \<times> int \<times> state \<times> string list"

fun loop_next :: "Graph \<Rightarrow> config \<Rightarrow> config option" where
  "loop_next g (current, steps, st, lg) =
     (if current \<noteq> PNone \<and> steps < max_steps g then
        (case loop_body g current st lg of
           Inr (Continue current' st' lg') \<Rightarrow> Some (current', steps + 1, st', lg')
         | _ \<Rightarrow> None)
      else None)"

fun loop_iters :: "nat \<Rightarrow> Graph \<Rightarrow> config \<Rightarrow> config option" where
  "loop_iters 0 g c = Some c"
| "loop_iters (Suc n) g c =
     (case loop_next g c of None \<Rightarrow> None | Some c' \<Rightarrow> loop_iters n g c')"

definition initial_config :: "Graph \<Rightarrow> state \<Rightarrow> config" where
  "initial_config g initial_state = (PStr (start_node g), 0, initial_state, [])"

text \<open>
  Replaying a trace: the nodes named by the trace are executed in order, each on the state
  the one before returned, starting from \<open>st\<close>. The result is the list of the states
  returned, one per execution, or \<open>None\<close> when a name is no node or a step does not
  return a state.
\<close>

fun replay :: "Graph \<Rightarrow> state \<Rightarrow> string list \<Rightarrow> state list option" where
  "replay g st [] = Some []"
| "replay g st (n # ns) =
     (case nodes g n of
        None \<Rightarrow> None
      | Some node_fn \<Rightarrow>
          (case node_fn st of
             Inr (IsDict st') \<Rightarrow> map_option ((#) st') (replay g st' ns)
           | _ \<Rightarrow> None))"

section \<open>The scenarios of the specification\<close>

text \<open>A step that adds its own name as a key with value \<^verbatim>\<open>True\<close> (Scenario A).\<close>

definition step_mark :: "string \<Rightarrow> NodeFn" where
  "step_mark n = (\<lambda>st. Inr (IsDict (st(n \<mapsto> PBool True))))"

text \<open>
  A step that increments \<^verbatim>\<open>count\<close>, as
  \<^verbatim>\<open>state["count"] = state.get("count", 0) + 1\<close> does on integers (Scenario B).
\<close>

definition step_incr :: NodeFn where
  "step_incr =
     (\<lambda>st. case st ''count'' of
        None \<Rightarrow> Inr (IsDict (st(''count'' \<mapsto> PInt 1)))
      | Some (PInt c) \<Rightarrow> Inr (IsDict (st(''count'' \<mapsto> PInt (c + 1))))
      | Some _ \<Rightarrow> Inl ''TypeError'')"

text \<open>Scenario A: the linear graph a, b, c, then the terminate sentinel.\<close>

definition scenario_A :: Graph where
  "scenario_A =
     \<lparr>graph_id = ''A'',
      nodes = [''a'' \<mapsto> step_mark ''a'', ''b'' \<mapsto> step_mark ''b'', ''c'' \<mapsto> step_mark ''c''],
      edges = [''a'' \<mapsto> PStr ''b'', ''b'' \<mapsto> PStr ''c'', ''c'' \<mapsto> PNone],
      start_node = ''a'', max_steps = 100\<rparr>"

text \<open>
  Scenario B: one node with the conditional edge \<^verbatim>\<open>count >= 3\<close>, true branch the
  terminate sentinel, false branch the node itself; the step bound is a parameter.
\<close>

definition scenario_B :: "int \<Rightarrow> Graph" where
  "scenario_B bound =
     \<lparr>graph_id = ''B'',
      nodes = [''a'' \<mapsto> step_incr],
      edges = [''a'' \<mapsto>
        PDict [(''type'', PStr ''conditional''), (''key'', PStr ''count''),
               (''op'', PStr ''>=''), (''value'', PInt 3),
               (''true'', PNone), (''false'', PStr ''a'')]],
      start_node = ''a'', max_steps = bound\<rparr>"

text \<open>Scenario C: as B, with a condition no step ever satisfies, and step bound 5.\<close>

definition scenario_C :: Graph where
  "scenario_C =
     \<lparr>graph_id = ''C'',
      nodes = [''a'' \<mapsto> step_incr],
      edges = [''a'' \<mapsto>
        PDict [(''type'', PStr ''conditional''), (''key'', PStr ''count''),
               (''op'', PStr ''<''), (''value'', PInt 0),
               (''true'', PNone), (''false'', PStr ''a'')]],
      start_node = ''a'', max_steps = 5\<rparr>"

text \<open>An unconditional cycle between two nodes, with no terminate sentinel anywhere.\<close>

definition scenario_cycle :: Graph where
  "scenario_cycle =
     \<lparr>graph_id = ''cycle'',
      nodes = [''a'' \<mapsto> step_incr, ''b'' \<mapsto> step_mark ''b''],
      edges = [''a'' \<mapsto> PStr ''b'', ''b'' \<mapsto> PStr ''a''],
      start_node = ''a'', max_steps = 4\<rparr>"

text \<open>Scenario D: an edge to a node \<^verbatim>\<open>x\<close> that is not among the nodes.\<close>

definition scenario_D :: Graph where
  "scenario_D =
     \<lparr>graph_id = ''D'',
      nodes = [''a'' \<mapsto> step_mark ''a''],
      edges = [''a'' \<mapsto> PStr ''x''],
      start_node = ''a'', max_steps = 100\<rparr>"

text \<open>A registry with two tools, and construction requests over it.\<close>

definition demo_registry :: ToolRegistry where
  "demo_registry =
     register_all ToolRegistry_init [(''incr'', step_incr), (''mark'', step_mark ''seen'')]"

definition demo_nodes :: "NodeSpec list" where
  "demo_nodes = [\<lparr>name = ''a'', tool_name = ''incr''\<rparr>, \<lparr>name = ''b'', tool_name = ''mark''\<rparr>]"

text \<open>A normal edge from \<open>src\<close> to \<open>tgt\<close>; \<open>tgt = None\<close> is a target left out or \<^verbatim>\<open>null\<close>.\<close>

definition normal_edge :: "string \<Rightarrow> string option \<Rightarrow> EdgeSpec" where
  "normal_edge src tgt =
     \<lparr>source = src, edge_type = Normal, target = tgt, condition_key = None,
      condition_op = None, condition_value = PNone, true_target = None, false_target = None\<rparr>"

text \<open>A conditional edge \<^verbatim>\<open>count >= 3\<close> from \<open>src\<close> with the two branch targets given.\<close>

definition count_edge :: "string \<Rightarrow> string option \<Rightarrow> string option \<Rightarrow> EdgeSpec" where
  "count_edge src tt ft =
     \<lparr>source = src, edge_type = Conditional, target = None, condition_key = Some ''count'',
      condition_op = Some ''>='', condition_value = PInt 3, true_target = tt, false_target = ft\<rparr>"

definition demo_request :: "EdgeSpec list \<Rightarrow> string \<Rightarrow> GraphCreateRequest" where
  "demo_request es start =
     \<lparr>req_nodes = demo_nodes, req_edges = es, req_start_node = start, req_max_steps = 100\<rparr>"


section \<open>The step registry: register and resolve\<close>

lemma get_register: "get (register tools k f) n = (if n = k then Inr f else get tools n)"
  by (simp add: get_def register_def)

lemma get_register_all:
  "get (register_all tools calls) n =
     (case map_of (rev calls) n of Some f \<Rightarrow> Inr f | None \<Rightarrow> get tools n)"
proof (induction calls arbitrary: tools)
  case Nil
  show ?case by simp
next
  case (Cons c cs)
  show ?case
    by (cases "map_of (rev cs) n")
       (simp_all add: Cons.IH map_add_def get_register)
qed

text \<open>
  Claim C9. Resolving a name right after registering it returns the implementation just
  registered; a second registration under the same name replaces the first. After any
  sequence of registrations, resolving a name returns the implementation of the latest
  registration under that name, and fails (with the \<^verbatim>\<open>KeyError\<close> that is the spec's
  NotFound) exactly when the name was never registered.
\<close>

theorem registry_register_get:
  "get (register tools n fn) n = Inr fn
   \<and> get (register (register tools n fn) n fn') n = Inr fn'
   \<and> get (register_all tools calls) n =
       (case map_of (rev calls) n of Some f \<Rightarrow> Inr f | None \<Rightarrow> get tools n)
   \<and> ((get (register_all ToolRegistry_init calls) n = Inl (KeyError n)) = (n \<notin> fst ` set calls))
   \<and> ((\<exists>e. get tools n = Inl e) = (tools n = None))"
proof -
  have a: "get (register tools n fn) n = Inr fn"
    by (simp add: get_def register_def)
  have b: "get (register (register tools n fn) n fn') n = Inr fn'"
    by (simp add: get_def register_def)
  have c: "(get (register_all ToolRegistry_init calls) n = Inl (KeyError n)) = (n \<notin> fst ` set calls)"
  proof (cases "map_of (rev calls) n")
    case None
    then have "n \<notin> fst ` set calls" by (simp add: map_of_eq_None_iff)
    moreover have "get ToolRegistry_init n = Inl (KeyError n)"
      by (simp add: get_def ToolRegistry_init_def)
    ultimately show ?thesis using None
      by (simp add: get_register_all)
  next
    case (Some f)
    then have "n \<in> fst ` set calls"
      using map_of_eq_None_iff [of "rev calls" n] by auto
    with Some show ?thesis
      by (simp add: get_register_all)
  qed
  have d: "(\<exists>e. get tools n = Inl e) = (tools n = None)"
    by (cases "tools n") (simp_all add: get_def)
  from a b c d get_register_all show ?thesis by blast
qed

section \<open>The condition evaluator: absent keys and ordering\<close>

text \<open>
  Claim C10. When the condition's key is absent from the state, the operators
  \<^verbatim>\<open>==\<close> and \<^verbatim>\<open>!=\<close> do not fail: the absent key reads as \<^verbatim>\<open>None\<close>, so \<^verbatim>\<open>==\<close>
  returns true exactly when the literal is \<^verbatim>\<open>None\<close>, and \<^verbatim>\<open>!=\<close> returns the negation.
  (A spec without an \<^verbatim>\<open>op\<close> entry is read as \<^verbatim>\<open>==\<close>.)
\<close>

theorem absent_key_equality:
  assumes "st k = None"
    and "dict_get spec ''key'' = PStr k"
    and "dict_get spec ''value'' = v"
  shows "(dict_get_default spec ''op'' (PStr ''=='') = PStr ''==''
           \<longrightarrow> evaluate_condition st spec = Inr (v = PNone))
       \<and> (dict_get_default spec ''op'' (PStr ''=='') = PStr ''!=''
           \<longrightarrow> evaluate_condition st spec = Inr (v \<noteq> PNone))"
  using assms by (simp add: evaluate_condition_def py_ne_def)

theorem absent_key_equality_witness:
  "evaluate_condition Map.empty
     [(''key'', PStr ''count''), (''op'', PStr ''==''), (''value'', PNone)] = Inr True
   \<and> evaluate_condition Map.empty
     [(''key'', PStr ''count''), (''value'', PInt 3)] = Inr False
   \<and> evaluate_condition Map.empty
     [(''key'', PStr ''count''), (''op'', PStr ''!=''), (''value'', PInt 3)] = Inr True"
  using absent_key_equality [of Map.empty "''count''"
          "[(''key'', PStr ''count''), (''op'', PStr ''==''), (''value'', PNone)]" PNone]
        absent_key_equality [of Map.empty "''count''"
          "[(''key'', PStr ''count''), (''value'', PInt 3)]" "PInt 3"]
        absent_key_equality [of Map.empty "''count''"
          "[(''key'', PStr ''count''), (''op'', PStr ''!=''), (''value'', PInt 3)]" "PInt 3"]
  by (simp add: dict_get_def dict_get_default_def)

text \<open>An ordering comparison raises exactly on the pairs that are not mutually ordered.\<close>

lemma py_cmp_type_error:
  "(\<exists>t. py_cmp oper a b = Inl (TypeError t)) = (\<not> mutually_ordered a b)"
  "(\<exists>t. py_cmp_list oper xs ys = Inl (TypeError t)) = (\<not> mutually_ordered_list xs ys)"
proof (induction a b and xs ys rule: mutually_ordered_mutually_ordered_list.induct)
qed (auto split: option.splits pyval.splits list.splits)

lemma py_cmp_result:
  "py_cmp oper a b = Inl e \<Longrightarrow> \<exists>x y. e = TypeError (NotSupportedBetween oper x y)"
  "py_cmp_list oper xs ys = Inl e \<Longrightarrow> \<exists>x y. e = TypeError (NotSupportedBetween oper x y)"
proof (induction a b and xs ys rule: mutually_ordered_mutually_ordered_list.induct)
qed (auto split: option.splits pyval.splits list.splits if_splits)

text \<open>
  Claim C6. For an ordering operator (\<^verbatim>\<open>>\<close>, \<^verbatim>\<open><\<close>, \<^verbatim>\<open>>=\<close>, \<^verbatim>\<open><=\<close>), when the
  value read from the state for the key and the literal are not mutually ordered, the
  evaluator fails with a \<^verbatim>\<open>TypeError\<close> (the spec's TypeMismatch) and returns no
  boolean; when they are mutually ordered it returns a boolean.
\<close>

theorem ordering_type_mismatch:
  assumes "dict_get spec ''key'' = PStr k"
    and "dict_get_default spec ''op'' (PStr ''=='') = PStr opname"
    and "opname \<in> {''>'', ''<'', ''>='', ''<=''}"
    and "state_get st (PStr k) = Inr left"
    and "dict_get spec ''value'' = v"
  shows "(\<not> mutually_ordered left v \<longrightarrow>
            (\<exists>oper x y. evaluate_condition st spec = Inl (TypeError (NotSupportedBetween oper x y))))
       \<and> (mutually_ordered left v \<longrightarrow> (\<exists>b. evaluate_condition st spec = Inr b))"
proof -
  obtain oper where ev: "evaluate_condition st spec = py_cmp oper left v"
    using assms by (auto simp: evaluate_condition_def)
  show ?thesis
  proof (cases "py_cmp oper left v")
    case (Inl e)
    then obtain x y where "e = TypeError (NotSupportedBetween oper x y)"
      using py_cmp_result(1) by blast
    with Inl ev py_cmp_type_error(1) [of oper left v] show ?thesis by auto
  next
    case (Inr b)
    with ev py_cmp_type_error(1) [of oper left v] show ?thesis by auto
  qed
qed

theorem ordering_type_mismatch_witness:
  "\<not> mutually_ordered (PStr ''high'') (PInt 80)
   \<and> evaluate_condition [''score'' \<mapsto> PStr ''high'']
          [(''type'', PStr ''conditional''), (''key'', PStr ''score''), (''op'', PStr ''>=''),
           (''value'', PInt 80), (''true'', PNone), (''false'', PStr ''a'')]
        = Inl (TypeError (NotSupportedBetween Ge (PStr ''high'') (PInt 80)))
   \<and> mutually_ordered (PInt 90) (PInt 80)
   \<and> evaluate_condition [''score'' \<mapsto> PInt 90]
          [(''type'', PStr ''conditional''), (''key'', PStr ''score''), (''op'', PStr ''>=''),
           (''value'', PInt 80), (''true'', PNone), (''false'', PStr ''a'')] = Inr True"
  using ordering_type_mismatch [of
          "[(''type'', PStr ''conditional''), (''key'', PStr ''score''), (''op'', PStr ''>=''),
           (''value'', PInt 80), (''true'', PNone), (''false'', PStr ''a'')]"
          "''score''" "''>=''" "[''score'' \<mapsto> PStr ''high'']" "PStr ''high''" "PInt 80"]
        ordering_type_mismatch [of
          "[(''type'', PStr ''conditional''), (''key'', PStr ''score''), (''op'', PStr ''>=''),
           (''value'', PInt 80), (''true'', PNone), (''false'', PStr ''a'')]"
          "''score''" "''>=''" "[''score'' \<mapsto> PInt 90]" "PInt 90" "PInt 80"]
  by (simp add: dict_get_def dict_get_default_def evaluate_condition_def)


section \<open>The run loop\<close>

text \<open>The definitions that evaluate a run on a concrete graph.\<close>

lemmas run_eval =
  run_graph_def run_loop.simps loop_body_def call_node_def evaluate_condition_def
  dict_get_def dict_get_default_def py_ne_def initial_config_def
  step_incr_def step_mark_def

text \<open>
  A pass through the loop body that does not raise has executed exactly one node: the
  current one, on the current state, and has appended its name to the log.
\<close>

lemma loop_body_Inr:
  assumes "loop_body g c st lg = Inr out"
  shows "\<exists>n f st'. c = PStr n \<and> nodes g n = Some f \<and> f st = Inr (IsDict st')
           \<and> (out = Break st' (lg @ [n]) \<or> (\<exists>c'. out = Continue c' st' (lg @ [n])))"
proof (cases c)
  case (PStr n)
  with assms show ?thesis
    by (auto simp: loop_body_def call_node_def
             split: option.splits sum.splits step_result.splits pyval.splits if_splits)
qed (use assms in \<open>simp_all add: loop_body_def\<close>)

lemma replay_nth:
  "replay g st ns = Some sts \<Longrightarrow>
     length sts = length ns \<and>
     (\<forall>i < length ns. \<exists>f. nodes g (ns ! i) = Some f \<and> f ((st # sts) ! i) = Inr (IsDict (sts ! i)))"
proof (induction ns arbitrary: st sts)
  case Nil
  then show ?case by simp
next
  case (Cons n ns)
  from Cons.prems obtain f st' sts' where
    f: "nodes g n = Some f" "f st = Inr (IsDict st')"
    and r: "replay g st' ns = Some sts'" and s: "sts = st' # sts'"
    by (auto split: option.splits sum.splits step_result.splits)
  from Cons.IH [OF r] have len: "length sts' = length ns"
    and ih: "\<And>i. i < length ns \<Longrightarrow>
       \<exists>f. nodes g (ns ! i) = Some f \<and> f ((st' # sts') ! i) = Inr (IsDict (sts' ! i))"
    by auto
  show ?case
  proof (intro conjI allI impI)
    show "length sts = length (n # ns)" using len s by simp
  next
    fix i assume "i < length (n # ns)"
    then show "\<exists>f. nodes g ((n # ns) ! i) = Some f \<and> f ((st # sts) ! i) = Inr (IsDict (sts ! i))"
      using f ih s by (cases i) auto
  qed
qed

lemma run_loop_result:
  "run_loop g c steps st lg = Inr (st', lg', steps') \<Longrightarrow>
     \<exists>ns sts. lg' = lg @ ns \<and> replay g st ns = Some sts \<and> st' = last (st # sts)
        \<and> length ns \<le> nat (max_steps g - steps) \<and> steps \<le> steps'"
proof (induction g c steps st lg rule: run_loop.induct)
  case (1 g current steps st lg)
  show ?case
  proof (cases "current \<noteq> PNone \<and> steps < max_steps g")
    case False
    with "1.prems" have "st' = st" "lg' = lg" "steps' = steps"
      by (auto simp: run_loop.simps)
    then show ?thesis by simp
  next
    case True
    show ?thesis
    proof (cases "loop_body g current st lg")
      case (Inl e)
      with True "1.prems" show ?thesis by (simp add: run_loop.simps)
    next
      case (Inr out)
      from loop_body_Inr [OF Inr] obtain n f st1 where
        n: "current = PStr n" "nodes g n = Some f" "f st = Inr (IsDict st1)"
        and out: "out = Break st1 (lg @ [n]) \<or> (\<exists>c'. out = Continue c' st1 (lg @ [n]))"
        by blast
      from out show ?thesis
      proof
        assume b: "out = Break st1 (lg @ [n])"
        with True Inr "1.prems" have "st' = st1" "lg' = lg @ [n]" "steps' = steps"
          by (auto simp: run_loop.simps)
        moreover have "replay g st [n] = Some [st1]" using n by simp
        moreover have "length [n] \<le> nat (max_steps g - steps)" using True by auto
        ultimately show ?thesis
          by (intro exI [of _ "[n]"] exI [of _ "[st1]"]) simp
      next
        assume "\<exists>c'. out = Continue c' st1 (lg @ [n])"
        then obtain c' where c: "out = Continue c' st1 (lg @ [n])" ..
        with True Inr "1.prems"
        have rec: "run_loop g c' (steps + 1) st1 (lg @ [n]) = Inr (st', lg', steps')"
          by (simp add: run_loop.simps)
        from "1.IH" [OF True Inr c rec] obtain ns sts where
          ih: "lg' = (lg @ [n]) @ ns" "replay g st1 ns = Some sts" "st' = last (st1 # sts)"
              "length ns \<le> nat (max_steps g - (steps + 1))" "steps + 1 \<le> steps'"
          by blast
        have "replay g st (n # ns) = Some (st1 # sts)" using n ih(2) by simp
        moreover have "length (n # ns) \<le> nat (max_steps g - steps)" using ih(4) True by auto
        ultimately show ?thesis using ih
          by (intro exI [of _ "n # ns"] exI [of _ "st1 # sts"]) simp
      qed
    qed
  qed
qed

lemma loop_next_run_loop:
  "loop_next g (c, steps, st, lg) = Some (c', steps', st', lg') \<Longrightarrow>
     run_loop g c steps st lg = run_loop g c' steps' st' lg'"
  by (subst run_loop.simps)
     (auto split: if_splits sum.splits loop_exit.splits)

lemma loop_next_steps:
  "loop_next g (c, steps, st, lg) = Some (c', steps', st', lg') \<Longrightarrow>
     steps' = steps + 1 \<and> length lg' = length lg + 1 \<and> steps < max_steps g"
  by (auto split: if_splits sum.splits loop_exit.splits dest!: loop_body_Inr)

lemma loop_iters_run_loop:
  "loop_iters n g (c, steps, st, lg) = Some (c', steps', st', lg') \<Longrightarrow>
     run_loop g c steps st lg = run_loop g c' steps' st' lg'
     \<and> steps' = steps + int n \<and> length lg' = length lg + n
     \<and> (n = 0 \<or> steps' \<le> max_steps g)"
proof (induction n arbitrary: c steps st lg)
  case 0
  then show ?case by simp
next
  case (Suc n)
  from Suc.prems obtain c1 steps1 st1 lg1 where
    nx: "loop_next g (c, steps, st, lg) = Some (c1, steps1, st1, lg1)"
    and it: "loop_iters n g (c1, steps1, st1, lg1) = Some (c', steps', st', lg')"
    by (auto split: option.splits)
  from loop_next_run_loop [OF nx] loop_next_steps [OF nx] Suc.IH [OF it]
  show ?case by auto
qed

text \<open>
  Claim C1. \<open>run_loop\<close> is defined by recursion on \<open>max_steps g - steps\<close> and accepted
  with its termination proof, whatever the edges are, so \<open>run_graph\<close> is a total function: a
  run returns (a result or an error) on every graph and every initial state. The trace of
  a run that returns a result has at most \<open>max_steps\<close> entries (none when \<open>max_steps\<close> is not
  positive). A run that fails is bounded too: after \<open>n\<close> iterations of the loop the step
  counter is \<open>n\<close>, the log has \<open>n\<close> entries, and \<open>n\<close> is at most \<open>max_steps\<close>; one more
  iteration starts only while the counter is below \<open>max_steps\<close>. The unconditional cycle
  is the witness.
\<close>

theorem run_graph_bounded:
  "(run_graph g s = Inr r \<longrightarrow> length (log_list r) \<le> nat (max_steps g))
   \<and> (loop_iters n g (initial_config g s) = Some (c, steps, st, lg)
        \<longrightarrow> steps = int n \<and> length lg = n \<and> n \<le> nat (max_steps g))"
proof (rule conjI; rule impI)
  assume run: "run_graph g s = Inr r"
  then obtain st' lg' steps' where
    lp: "run_loop g (PStr (start_node g)) 0 s [] = Inr (st', lg', steps')"
    and lg: "log_list r = lg'"
    by (auto simp: run_graph_def Let_def split: sum.splits)
  from run_loop_result [OF lp] lg show "length (log_list r) \<le> nat (max_steps g)"
    by auto
next
  assume it: "loop_iters n g (initial_config g s) = Some (c, steps, st, lg)"
  then have "loop_iters n g (PStr (start_node g), 0, s, []) = Some (c, steps, st, lg)"
    by (simp add: initial_config_def)
  from loop_iters_run_loop [OF this]
  have a: "steps = int n" and b: "length lg = n" and c: "n = 0 \<or> steps \<le> max_steps g"
    by auto
  from a c have "n \<le> nat (max_steps g)" by auto
  with a b show "steps = int n \<and> length lg = n \<and> n \<le> nat (max_steps g)" by simp
qed

theorem run_graph_bounded_witness:
  "map_sum id log_list (run_graph scenario_cycle Map.empty) = Inr [''a'', ''b'', ''a'', ''b'']
   \<and> max_steps scenario_cycle = 4
   \<and> loop_iters (Suc (Suc 0)) scenario_cycle (initial_config scenario_cycle Map.empty)
       = Some (PStr ''a'', 2, [''count'' \<mapsto> PInt 1, ''b'' \<mapsto> PBool True], [''a'', ''b''])"
proof -
  have ev: "run_graph scenario_cycle Map.empty
      = Inr (projr (run_graph scenario_cycle Map.empty))"
    by (simp add: run_eval scenario_cycle_def)
  have lg: "map_sum id log_list (run_graph scenario_cycle Map.empty)
      = Inr [''a'', ''b'', ''a'', ''b'']"
    by (simp add: run_eval scenario_cycle_def)
  have it: "loop_iters (Suc (Suc 0)) scenario_cycle (initial_config scenario_cycle Map.empty)
       = Some (PStr ''a'', 2, [''count'' \<mapsto> PInt 1, ''b'' \<mapsto> PBool True], [''a'', ''b''])"
    by (simp add: run_eval scenario_cycle_def)
  have "max_steps scenario_cycle = 4" by (simp add: scenario_cycle_def)
  with run_graph_bounded [of scenario_cycle Map.empty
         "projr (run_graph scenario_cycle Map.empty)" "Suc (Suc 0)"
         "PStr ''a''" 2 "[''count'' \<mapsto> PInt 1, ''b'' \<mapsto> PBool True]" "[''a'', ''b'']"]
       ev lg it
  show ?thesis by simp
qed

text \<open>
  Claim C4. When \<open>run_graph\<close> succeeds, the trace is a record of the node executions:
  there are as many states \<open>sts\<close> as trace entries, entry \<open>i\<close> names a node of the graph,
  and that node's step, run on the state before it (the initial state for \<open>i = 0\<close>, state
  \<open>i - 1\<close> otherwise), returned state \<open>i\<close>. The final state holds the trace under
  \<^verbatim>\<open>_execution_log\<close> and agrees with the last of these states on every key but the two
  the engine adds. Scenario A is the witness.
\<close>

theorem trace_correct:
  assumes "run_graph g s = Inr r"
  shows "\<exists>sts. replay g s (log_list r) = Some sts
           \<and> length sts = length (log_list r)
           \<and> (\<forall>i < length (log_list r). \<exists>f. nodes g (log_list r ! i) = Some f
                  \<and> f ((s # sts) ! i) = Inr (IsDict (sts ! i)))
           \<and> final_state r ''_execution_log'' = Some (PList (map PStr (log_list r)))
           \<and> (\<forall>k. k \<noteq> ''_warning'' \<and> k \<noteq> ''_execution_log''
                  \<longrightarrow> final_state r k = last (s # sts) k)"
proof -
  from assms obtain st' lg' steps' where
    lp: "run_loop g (PStr (start_node g)) 0 s [] = Inr (st', lg', steps')"
    and lg: "log_list r = lg'"
    and fs: "final_state r =
       (if steps' \<ge> max_steps g
        then st'(''_warning'' \<mapsto>
               PStr (''Stopped after reaching max_steps='' @ str_int (max_steps g)))
        else st')(''_execution_log'' \<mapsto> PList (map PStr lg'))"
    by (auto simp: run_graph_def Let_def split: sum.splits)
  from run_loop_result [OF lp] obtain sts where
    rp: "replay g s lg' = Some sts" and last: "st' = last (s # sts)"
    by auto
  from replay_nth [OF rp] have
    len: "length sts = length lg'"
    and nth: "\<forall>i < length lg'. \<exists>f. nodes g (lg' ! i) = Some f
                \<and> f ((s # sts) ! i) = Inr (IsDict (sts ! i))"
    by auto
  have log: "final_state r ''_execution_log'' = Some (PList (map PStr lg'))"
    by (simp add: fs)
  have rest: "\<forall>k. k \<noteq> ''_warning'' \<and> k \<noteq> ''_execution_log''
                  \<longrightarrow> final_state r k = last (s # sts) k"
    using last by (simp add: fs)
  from rp len nth log rest show ?thesis
    unfolding lg by blast
qed

theorem trace_correct_witness:
  "run_graph scenario_A Map.empty =
     Inr \<lparr>final_state =
            [''a'' \<mapsto> PBool True, ''b'' \<mapsto> PBool True, ''c'' \<mapsto> PBool True,
             ''_execution_log'' \<mapsto> PList [PStr ''a'', PStr ''b'', PStr ''c'']],
          log_list = [''a'', ''b'', ''c'']\<rparr>
   \<and> replay scenario_A Map.empty [''a'', ''b'', ''c'']
       = Some [[''a'' \<mapsto> PBool True],
               [''a'' \<mapsto> PBool True, ''b'' \<mapsto> PBool True],
               [''a'' \<mapsto> PBool True, ''b'' \<mapsto> PBool True, ''c'' \<mapsto> PBool True]]"
proof -
  have ev: "run_graph scenario_A Map.empty =
     Inr \<lparr>final_state =
            [''a'' \<mapsto> PBool True, ''b'' \<mapsto> PBool True, ''c'' \<mapsto> PBool True,
             ''_execution_log'' \<mapsto> PList [PStr ''a'', PStr ''b'', PStr ''c'']],
          log_list = [''a'', ''b'', ''c'']\<rparr>"
    by (simp add: run_eval scenario_A_def)
  from trace_correct [OF ev] obtain sts where
    "replay scenario_A Map.empty [''a'', ''b'', ''c''] = Some sts"
    by auto
  moreover have "replay scenario_A Map.empty [''a'', ''b'', ''c'']
       = Some [[''a'' \<mapsto> PBool True],
               [''a'' \<mapsto> PBool True, ''b'' \<mapsto> PBool True],
               [''a'' \<mapsto> PBool True, ''b'' \<mapsto> PBool True, ''c'' \<mapsto> PBool True]]"
    by (simp add: scenario_A_def step_mark_def)
  ultimately show ?thesis using ev by simp
qed

text \<open>
  Claim C8. When the run loop reaches, with steps left, a current node name that is not a
  key of the node mapping, \<open>run_graph\<close> fails with the \<^verbatim>\<open>ValueError\<close> that names the
  missing node (the spec's UnknownNode): the caller gets the error and no final state.
  Scenario D is the witness.
\<close>

theorem unknown_node_fails:
  assumes "loop_iters n g (initial_config g s) = Some (PStr x, steps, st, lg)"
    and "steps < max_steps g"
    and "nodes g x = None"
  shows "run_graph g s = Inl (ValueError (NodeNotFound (PStr x)))"
proof -
  from assms(1) have "loop_iters n g (PStr (start_node g), 0, s, []) = Some (PStr x, steps, st, lg)"
    by (simp add: initial_config_def)
  from loop_iters_run_loop [OF this]
  have "run_loop g (PStr (start_node g)) 0 s [] = run_loop g (PStr x) steps st lg"
    by simp
  also have "\<dots> = Inl (ValueError (NodeNotFound (PStr x)))"
    using assms(2,3) by (simp add: run_loop.simps loop_body_def)
  finally show ?thesis by (simp add: run_graph_def)
qed

theorem unknown_node_fails_witness:
  "loop_iters (Suc 0) scenario_D (initial_config scenario_D Map.empty)
     = Some (PStr ''x'', 1, [''a'' \<mapsto> PBool True], [''a''])
   \<and> 1 < max_steps scenario_D
   \<and> nodes scenario_D ''x'' = None
   \<and> run_graph scenario_D Map.empty = Inl (ValueError (NodeNotFound (PStr ''x'')))"
proof -
  have a: "loop_iters (Suc 0) scenario_D (initial_config scenario_D Map.empty)
     = Some (PStr ''x'', 1, [''a'' \<mapsto> PBool True], [''a''])"
    by (simp add: run_eval scenario_D_def)
  have b: "1 < max_steps scenario_D" by (simp add: scenario_D_def)
  have c: "nodes scenario_D ''x'' = None" by (simp add: scenario_D_def)
  from unknown_node_fails [OF a b c] a b c show ?thesis by simp
qed


section \<open>The warning marker\<close>

lemmas run_eval2 = run_eval digits.simps str_int_def

text \<open>
  Claim C2. The claim says the final state carries \<^verbatim>\<open>_warning\<close> exactly when the run
  was cut off by the step bound, and that a run ending in the terminate sentinel of a
  conditional branch carries none. The code tests \<^verbatim>\<open>steps >= graph.max_steps\<close> after
  the loop, and \<^verbatim>\<open>steps\<close> is incremented also by the iteration that selects the
  terminate sentinel. Scenario B with step bound 3: the third execution satisfies
  \<^verbatim>\<open>count >= 3\<close>, the loop is left with \<^verbatim>\<open>current\<close> equal to \<^verbatim>\<open>None\<close> (not cut off:
  after three iterations \<^verbatim>\<open>current\<close> is the sentinel), trace [a, a, a], count 3, and yet
  the final state carries the warning. With bound 100 the same run carries none; and a run
  of three executions that ends at a node with a \<^verbatim>\<open>None\<close> edge under bound 3 (the
  \<^verbatim>\<open>break\<close> path, which does not increment \<^verbatim>\<open>steps\<close>) carries none either.
  Scenario C, cut off by its bound of 5, carries the warning, as the claim says.
\<close>

theorem explicit_end_at_bound:
  "run_graph (scenario_B 3) Map.empty =
     Inr \<lparr>final_state =
            [''count'' \<mapsto> PInt 3,
             ''_warning'' \<mapsto> PStr ''Stopped after reaching max_steps=3'',
             ''_execution_log'' \<mapsto> PList [PStr ''a'', PStr ''a'', PStr ''a'']],
          log_list = [''a'', ''a'', ''a'']\<rparr>
   \<and> loop_iters (Suc (Suc (Suc 0))) (scenario_B 3) (initial_config (scenario_B 3) Map.empty)
       = Some (PNone, 3, [''count'' \<mapsto> PInt 3], [''a'', ''a'', ''a''])
   \<and> run_graph (scenario_B 100) Map.empty =
     Inr \<lparr>final_state =
            [''count'' \<mapsto> PInt 3,
             ''_execution_log'' \<mapsto> PList [PStr ''a'', PStr ''a'', PStr ''a'']],
          log_list = [''a'', ''a'', ''a'']\<rparr>
   \<and> run_graph (scenario_A\<lparr>max_steps := 3\<rparr>) Map.empty =
     Inr \<lparr>final_state =
            [''a'' \<mapsto> PBool True, ''b'' \<mapsto> PBool True, ''c'' \<mapsto> PBool True,
             ''_execution_log'' \<mapsto> PList [PStr ''a'', PStr ''b'', PStr ''c'']],
          log_list = [''a'', ''b'', ''c'']\<rparr>
   \<and> run_graph scenario_C Map.empty =
     Inr \<lparr>final_state =
            [''count'' \<mapsto> PInt 5,
             ''_warning'' \<mapsto> PStr ''Stopped after reaching max_steps=5'',
             ''_execution_log'' \<mapsto>
               PList [PStr ''a'', PStr ''a'', PStr ''a'', PStr ''a'', PStr ''a'']],
          log_list = [''a'', ''a'', ''a'', ''a'', ''a'']\<rparr>"
  by (simp add: run_eval2 scenario_B_def scenario_A_def scenario_C_def)

section \<open>Graph construction\<close>

text \<open>The definitions that evaluate a construction request.\<close>

lemmas build_eval =
  build_graph_from_request_def demo_request_def demo_nodes_def demo_registry_def
  count_edge_def normal_edge_def get_def register_def ToolRegistry_init_def
  save_graph_def conditional_spec_def edge_accepted_def Let_def

text \<open>Every failure of construction is an HTTP 400; success is the two loops succeeding.\<close>

lemma build_nodes_Inl:
  "build_nodes reg ns acc = Inl e \<Longrightarrow> \<exists>d. e = HTTPException 400 d"
  by (induction ns arbitrary: acc) (auto split: sum.splits)

lemma build_nodes_Inr:
  "build_nodes reg ns acc = Inr m \<Longrightarrow>
     dom m = dom acc \<union> name ` set ns \<and> (\<forall>n \<in> set ns. reg (tool_name n) \<noteq> None)"
proof (induction ns arbitrary: acc)
  case Nil
  then show ?case by simp
next
  case (Cons n ns)
  from Cons.prems obtain fn where
    g: "get reg (tool_name n) = Inr fn"
    and r: "build_nodes reg ns (acc(name n \<mapsto> fn)) = Inr m"
    by (auto split: sum.splits)
  from g have "reg (tool_name n) \<noteq> None"
    by (auto simp: get_def split: option.splits)
  with Cons.IH [OF r] show ?case by auto
qed

lemma build_nodes_total:
  "\<forall>n \<in> set ns. reg (tool_name n) \<noteq> None \<Longrightarrow> \<exists>m. build_nodes reg ns acc = Inr m"
  by (induction ns arbitrary: acc) (auto simp: get_def split: sum.splits option.splits)

lemma build_edges_Inl:
  "build_edges es acc = Inl e \<Longrightarrow> \<exists>d. e = HTTPException 400 d"
  by (induction es arbitrary: acc)
     (auto split: edge_kind.splits option.splits if_splits)

text \<open>What a successful second loop stores for a source: the object of an accepted edge.\<close>

lemma build_edges_step:
  "build_edges (e # es) acc = Inr m \<Longrightarrow>
     edge_accepted e \<and>
     build_edges es
       (acc(source e \<mapsto>
          (case edge_type e of Normal \<Rightarrow> opt_str (target e) | Conditional \<Rightarrow> conditional_spec e)))
       = Inr m"
  by (auto simp: edge_accepted_def split: edge_kind.splits option.splits if_splits)

lemma build_edges_accepted:
  "build_edges es acc = Inr m \<Longrightarrow> \<forall>e \<in> set es. edge_accepted e"
proof (induction es arbitrary: acc)
  case Nil
  then show ?case by simp
next
  case (Cons e es)
  from build_edges_step [OF Cons.prems] Cons.IH show ?case by auto
qed

lemma build_edges_Inr:
  "build_edges es acc = Inr m \<Longrightarrow> m n = Some v \<Longrightarrow>
     acc n = Some v
     \<or> (\<exists>e \<in> set es. source e = n \<and> edge_accepted e \<and>
           v = (case edge_type e of Normal \<Rightarrow> opt_str (target e) | Conditional \<Rightarrow> conditional_spec e))"
proof (induction es arbitrary: acc)
  case Nil
  then show ?case by simp
next
  case (Cons e es)
  let ?obj = "case edge_type e of Normal \<Rightarrow> opt_str (target e) | Conditional \<Rightarrow> conditional_spec e"
  from build_edges_step [OF Cons.prems(1)] have acc: "edge_accepted e"
    and r: "build_edges es (acc(source e \<mapsto> ?obj)) = Inr m"
    by auto
  from Cons.IH [OF r Cons.prems(2)] show ?case
  proof
    assume a: "(acc(source e \<mapsto> ?obj)) n = Some v"
    show ?thesis
    proof (cases "n = source e")
      case True
      with a have "v = ?obj" by simp
      with True acc show ?thesis by auto
    next
      case False
      with a show ?thesis by simp
    qed
  next
    assume "\<exists>e' \<in> set es. source e' = n \<and> edge_accepted e' \<and>
           v = (case edge_type e' of Normal \<Rightarrow> opt_str (target e') | Conditional \<Rightarrow> conditional_spec e')"
    then show ?thesis by auto
  qed
qed

lemma build_edges_total:
  "\<forall>e \<in> set es. edge_accepted e \<Longrightarrow> \<exists>m. build_edges es acc = Inr m"
  by (induction es arbitrary: acc)
     (auto simp: edge_accepted_def split: edge_kind.splits option.splits)

lemma build_graph_Inl:
  "build_graph_from_request reg GRAPHS new_id req = Inl e \<Longrightarrow> \<exists>d. e = HTTPException 400 d"
  by (auto simp: build_graph_from_request_def Let_def split: sum.splits
           dest: build_nodes_Inl build_edges_Inl)

lemma build_graph_Inr:
  assumes "build_graph_from_request reg GRAPHS new_id req = Inr (g, GRAPHS')"
  shows "build_nodes reg (req_nodes req) Map.empty = Inr (nodes g)"
    and "build_edges (req_edges req) Map.empty = Inr (edges g)"
    and "start_node g = req_start_node req"
    and "max_steps g = req_max_steps req"
    and "graph_id g = new_id"
    and "GRAPHS' = GRAPHS(new_id \<mapsto> g)"
  using assms
  by (auto simp: build_graph_from_request_def Let_def save_graph_def split: sum.splits)

lemma build_graph_rejects:
  assumes "e \<in> set (req_edges req)" and "\<not> edge_accepted e"
  shows "\<exists>d. build_graph_from_request reg GRAPHS new_id req = Inl (HTTPException 400 d)"
proof (cases "build_graph_from_request reg GRAPHS new_id req")
  case (Inl err)
  with build_graph_Inl [OF Inl] show ?thesis by auto
next
  case (Inr p)
  then obtain g G where "build_graph_from_request reg GRAPHS new_id req = Inr (g, G)"
    by (cases p) auto
  from build_graph_Inr(2) [OF this] build_edges_accepted assms show ?thesis by blast
qed

lemma build_graph_accepts:
  "(\<exists>g G. build_graph_from_request reg GRAPHS new_id req = Inr (g, G))
     = ((\<forall>n \<in> set (req_nodes req). reg (tool_name n) \<noteq> None)
        \<and> (\<forall>e \<in> set (req_edges req). edge_accepted e))"
proof
  assume "\<exists>g G. build_graph_from_request reg GRAPHS new_id req = Inr (g, G)"
  then obtain g G where b: "build_graph_from_request reg GRAPHS new_id req = Inr (g, G)"
    by blast
  from build_nodes_Inr [OF build_graph_Inr(1) [OF b]] build_edges_accepted [OF build_graph_Inr(2) [OF b]]
  show "(\<forall>n \<in> set (req_nodes req). reg (tool_name n) \<noteq> None)
        \<and> (\<forall>e \<in> set (req_edges req). edge_accepted e)"
    by blast
next
  assume a: "(\<forall>n \<in> set (req_nodes req). reg (tool_name n) \<noteq> None)
        \<and> (\<forall>e \<in> set (req_edges req). edge_accepted e)"
  then obtain ns where ns: "build_nodes reg (req_nodes req) Map.empty = Inr ns"
    using build_nodes_total by blast
  from a obtain es where es: "build_edges (req_edges req) Map.empty = Inr es"
    using build_edges_total by blast
  from ns es show "\<exists>g G. build_graph_from_request reg GRAPHS new_id req = Inr (g, G)"
    by (simp add: build_graph_from_request_def Let_def)
qed

text \<open>
  The error for a missing condition key can only come from a conditional edge whose dict
  has no key.
\<close>

lemma evaluate_missing_key:
  assumes "evaluate_condition st d = Inl (ValueError MissingConditionKey)"
  shows "dict_get d ''key'' = PNone"
proof (rule ccontr)
  assume k: "dict_get d ''key'' \<noteq> PNone"
  show False
  proof (cases "state_get st (dict_get d ''key'')")
    case (Inl e)
    then have "\<exists>t. e = TypeError t"
      by (cases "dict_get d ''key''") auto
    with assms k Inl show False by (auto simp: evaluate_condition_def Let_def)
  next
    case (Inr left)
    with assms k show False
      by (auto simp: evaluate_condition_def Let_def split: if_splits dest: py_cmp_result(1))
  qed
qed

lemma loop_body_missing_key:
  assumes "loop_body g c st lg = Inl (ValueError MissingConditionKey)"
  shows "\<exists>n d. edges g n = Some (PDict d) \<and> dict_get d ''key'' = PNone"
proof (cases c)
  case (PStr n)
  with assms show ?thesis
    by (auto simp: loop_body_def call_node_def
             split: option.splits sum.splits step_result.splits pyval.splits if_splits
             dest: evaluate_missing_key)
qed (use assms in \<open>simp_all add: loop_body_def\<close>)

lemma run_loop_missing_key:
  "run_loop g c steps st lg = Inl (ValueError MissingConditionKey) \<Longrightarrow>
     \<exists>n d. edges g n = Some (PDict d) \<and> dict_get d ''key'' = PNone"
proof (induction g c steps st lg rule: run_loop.induct)
  case (1 g current steps st lg)
  show ?case
  proof (cases "current \<noteq> PNone \<and> steps < max_steps g")
    case False
    with "1.prems" show ?thesis by (simp add: run_loop.simps)
  next
    case True
    show ?thesis
    proof (cases "loop_body g current st lg")
      case (Inl e)
      with True "1.prems" have "e = ValueError MissingConditionKey"
        by (simp add: run_loop.simps)
      with Inl loop_body_missing_key show ?thesis by blast
    next
      case (Inr out)
      show ?thesis
      proof (cases out)
        case (Break st' lg')
        with True Inr "1.prems" show ?thesis by (simp add: run_loop.simps)
      next
        case (Continue c' st' lg')
        with True Inr "1.prems"
        have "run_loop g c' (steps + 1) st' lg' = Inl (ValueError MissingConditionKey)"
          by (simp add: run_loop.simps)
        from "1.IH" [OF True Inr Continue this] show ?thesis .
      qed
    qed
  qed
qed

lemma built_conditional_edges:
  assumes "build_graph_from_request reg GRAPHS new_id req = Inr (g, GRAPHS')"
    and "edges g n = Some (PDict d)"
  shows "\<exists>k opname. dict_get d ''key'' = PStr k \<and> dict_get d ''op'' = PStr opname
           \<and> dict_get d ''value'' \<noteq> PNone"
proof -
  from build_edges_Inr [OF build_graph_Inr(2) [OF assms(1)] assms(2)]
  obtain e where e: "edge_accepted e"
    and v: "PDict d = (case edge_type e of Normal \<Rightarrow> opt_str (target e)
                       | Conditional \<Rightarrow> conditional_spec e)"
    by auto
  show ?thesis
  proof (cases "edge_type e")
    case Normal
    with v show ?thesis by (cases "target e") simp_all
  next
    case Conditional
    with e obtain k opname where "condition_key e = Some k" "condition_op e = Some opname"
      "condition_value e \<noteq> PNone"
      by (auto simp: edge_accepted_def)
    with v Conditional show ?thesis
      by (auto simp: conditional_spec_def dict_get_def dict_get_default_def)
  qed
qed

text \<open>
  Claim C7. A construction request with a conditional edge that leaves out
  \<^verbatim>\<open>condition_key\<close>, \<^verbatim>\<open>condition_op\<close> or \<^verbatim>\<open>condition_value\<close> fails with an HTTP 400
  error: no graph is returned and none is stored, so no run can start. In a graph that
  construction returns, every conditional edge has its key, operator and value, and no run
  of it fails with the evaluator's missing-key error.
\<close>

theorem conditional_fields_checked_at_construction:
  "(e \<in> set (req_edges req) \<and> edge_type e = Conditional
      \<and> (condition_key e = None \<or> condition_op e = None \<or> condition_value e = PNone)
     \<longrightarrow> (\<exists>d. build_graph_from_request reg GRAPHS new_id req = Inl (HTTPException 400 d)))
   \<and> (build_graph_from_request reg GRAPHS new_id req = Inr (g, GRAPHS')
     \<longrightarrow> run_graph g s \<noteq> Inl (ValueError MissingConditionKey)
         \<and> (\<forall>n d. edges g n = Some (PDict d) \<longrightarrow>
               (\<exists>k opname. dict_get d ''key'' = PStr k \<and> dict_get d ''op'' = PStr opname
                    \<and> dict_get d ''value'' \<noteq> PNone)))"
proof (rule conjI; rule impI)
  assume a: "e \<in> set (req_edges req) \<and> edge_type e = Conditional
      \<and> (condition_key e = None \<or> condition_op e = None \<or> condition_value e = PNone)"
  then have "\<not> edge_accepted e" by (auto simp: edge_accepted_def)
  with a build_graph_rejects
  show "\<exists>d. build_graph_from_request reg GRAPHS new_id req = Inl (HTTPException 400 d)"
    by blast
next
  assume b: "build_graph_from_request reg GRAPHS new_id req = Inr (g, GRAPHS')"
  have keys: "\<forall>n d. edges g n = Some (PDict d) \<longrightarrow>
               (\<exists>k opname. dict_get d ''key'' = PStr k \<and> dict_get d ''op'' = PStr opname
                    \<and> dict_get d ''value'' \<noteq> PNone)"
    using built_conditional_edges [OF b] by blast
  have "run_graph g s \<noteq> Inl (ValueError MissingConditionKey)"
  proof
    assume "run_graph g s = Inl (ValueError MissingConditionKey)"
    then have "run_loop g (PStr (start_node g)) 0 s [] = Inl (ValueError MissingConditionKey)"
      by (auto simp: run_graph_def Let_def split: sum.splits)
    from run_loop_missing_key [OF this] keys show False by fastforce
  qed
  with keys show "run_graph g s \<noteq> Inl (ValueError MissingConditionKey)
         \<and> (\<forall>n d. edges g n = Some (PDict d) \<longrightarrow>
               (\<exists>k opname. dict_get d ''key'' = PStr k \<and> dict_get d ''op'' = PStr opname
                    \<and> dict_get d ''value'' \<noteq> PNone))"
    by simp
qed

theorem conditional_fields_checked_at_construction_witness:
  "build_graph_from_request demo_registry Map.empty ''g1''
       (demo_request [(count_edge ''a'' (Some ''b'') (Some ''a''))\<lparr>condition_key := None\<rparr>] ''a'')
     = Inl (HTTPException 400 (ConditionalInvalid ''a''))
   \<and> \<not> isl (build_graph_from_request demo_registry Map.empty ''g1''
               (demo_request [count_edge ''a'' (Some ''b'') (Some ''a'')] ''a''))
   \<and> map_sum id log_list
        (run_graph (fst (projr (build_graph_from_request demo_registry Map.empty ''g1''
               (demo_request [count_edge ''a'' (Some ''b'') (Some ''a'')] ''a''))))
           Map.empty)
       = Inr [''a'', ''a'', ''a'', ''b'']"
proof -
  let ?bad = "demo_request [(count_edge ''a'' (Some ''b'') (Some ''a''))\<lparr>condition_key := None\<rparr>] ''a''"
  let ?good = "demo_request [count_edge ''a'' (Some ''b'') (Some ''a'')] ''a''"
  let ?B = "build_graph_from_request demo_registry Map.empty ''g1'' ?good"
  have bad: "build_graph_from_request demo_registry Map.empty ''g1'' ?bad
     = Inl (HTTPException 400 (ConditionalInvalid ''a''))"
    by (simp add: build_eval)
  have good: "\<not> isl ?B"
    by (simp add: build_eval)
  then have eq: "?B = Inr (fst (projr ?B), snd (projr ?B))"
    by (cases ?B) auto
  have run: "map_sum id log_list (run_graph (fst (projr ?B)) Map.empty)
       = Inr [''a'', ''a'', ''a'', ''b'']"
    by (simp add: build_eval run_eval)
  from conditional_fields_checked_at_construction
         [of "(count_edge ''a'' (Some ''b'') (Some ''a''))\<lparr>condition_key := None\<rparr>" ?bad
             demo_registry Map.empty "''g1''" "fst (projr ?B)" "snd (projr ?B)" Map.empty]
       conditional_fields_checked_at_construction
         [of "count_edge ''a'' (Some ''b'') (Some ''a'')" ?good demo_registry Map.empty "''g1''" "fst (projr ?B)" "snd (projr ?B)" Map.empty]
       eq
  have "run_graph (fst (projr ?B)) Map.empty \<noteq> Inl (ValueError MissingConditionKey)"
    by blast
  with bad good run show ?thesis by simp
qed

text \<open>
  Claim C5, as amended. Construction does not look at \<^verbatim>\<open>start_node\<close>: the graph it
  returns has the request's start node and the request's node names as the keys of its
  node mapping, and construction succeeds whatever the start node is. So the start node is
  a key of the node mapping exactly when the request's \<^verbatim>\<open>start_node\<close> names one of its
  nodes. When it does not, the graph is built all the same, and a run of it (with a
  positive step bound) fails at its first iteration with the error naming the start node.
\<close>

theorem start_node_unchecked:
  assumes "build_graph_from_request reg GRAPHS new_id req = Inr (g, GRAPHS')"
  shows "start_node g = req_start_node req
       \<and> dom (nodes g) = name ` set (req_nodes req)
       \<and> ((start_node g \<in> dom (nodes g)) = (req_start_node req \<in> name ` set (req_nodes req)))
       \<and> (\<exists>g' G'. build_graph_from_request reg GRAPHS new_id (req\<lparr>req_start_node := other\<rparr>)
                     = Inr (g', G'))
       \<and> (req_start_node req \<notin> name ` set (req_nodes req) \<and> 0 < max_steps g
            \<longrightarrow> run_graph g s = Inl (ValueError (NodeNotFound (PStr (req_start_node req)))))"
proof -
  have st: "start_node g = req_start_node req"
    using build_graph_Inr(3) [OF assms] .
  have dm: "dom (nodes g) = name ` set (req_nodes req)"
    using build_nodes_Inr [OF build_graph_Inr(1) [OF assms]] by simp
  have other: "\<exists>g' G'. build_graph_from_request reg GRAPHS new_id (req\<lparr>req_start_node := other\<rparr>)
                     = Inr (g', G')"
    using assms build_graph_accepts [of reg GRAPHS new_id req]
          build_graph_accepts [of reg GRAPHS new_id "req\<lparr>req_start_node := other\<rparr>"]
    by auto
  have run: "req_start_node req \<notin> name ` set (req_nodes req) \<and> 0 < max_steps g
            \<longrightarrow> run_graph g s = Inl (ValueError (NodeNotFound (PStr (req_start_node req))))"
  proof
    assume a: "req_start_node req \<notin> name ` set (req_nodes req) \<and> 0 < max_steps g"
    with dm st have "nodes g (start_node g) = None" by auto
    with a have "run_loop g (PStr (start_node g)) 0 s []
        = Inl (ValueError (NodeNotFound (PStr (start_node g))))"
      by (simp add: run_loop.simps loop_body_def)
    with st show "run_graph g s = Inl (ValueError (NodeNotFound (PStr (req_start_node req))))"
      by (simp add: run_graph_def)
  qed
  from st dm other run show ?thesis by simp
qed

theorem start_node_unchecked_witness:
  "\<not> isl (build_graph_from_request demo_registry Map.empty ''g1'' (demo_request [] ''a''))
   \<and> start_node (fst (projr
        (build_graph_from_request demo_registry Map.empty ''g1'' (demo_request [] ''a''))))
       \<in> dom (nodes (fst (projr
        (build_graph_from_request demo_registry Map.empty ''g1'' (demo_request [] ''a'')))))
   \<and> dom (nodes (fst (projr
        (build_graph_from_request demo_registry Map.empty ''g1'' (demo_request [] ''zzz'')))))
       = {''a'', ''b''}
   \<and> run_graph (fst (projr
        (build_graph_from_request demo_registry Map.empty ''g1'' (demo_request [] ''zzz''))))
        Map.empty
       = Inl (ValueError (NodeNotFound (PStr ''zzz'')))"
proof -
  let ?A = "build_graph_from_request demo_registry Map.empty ''g1'' (demo_request [] ''a'')"
  let ?Z = "build_graph_from_request demo_registry Map.empty ''g1'' (demo_request [] ''zzz'')"
  have a: "\<not> isl ?A" and z: "\<not> isl ?Z"
    by (simp_all add: build_eval)
  then have eqa: "?A = Inr (fst (projr ?A), snd (projr ?A))"
    and eqz: "?Z = Inr (fst (projr ?Z), snd (projr ?Z))"
    by (cases ?A; auto)+
  have ms: "0 < max_steps (fst (projr ?Z))"
    by (simp add: build_eval)
  from start_node_unchecked [OF eqa, of "''a''" Map.empty]
  have "start_node (fst (projr ?A)) \<in> dom (nodes (fst (projr ?A)))"
    by (simp add: demo_request_def demo_nodes_def)
  moreover from start_node_unchecked [OF eqz, of "''zzz''" Map.empty] ms
  have "dom (nodes (fst (projr ?Z))) = {''a'', ''b''}
     \<and> run_graph (fst (projr ?Z)) Map.empty = Inl (ValueError (NodeNotFound (PStr ''zzz'')))"
    by (auto simp: demo_request_def demo_nodes_def)
  ultimately show ?thesis using a by simp
qed

text \<open>
  The claim as stated fails: a request whose \<^verbatim>\<open>start_node\<close> names no node is built, and
  the start node of the graph is not a key of its node mapping.
\<close>

theorem start_node_invariant_counterexample:
  "\<not> isl (build_graph_from_request demo_registry Map.empty ''g1'' (demo_request [] ''zzz''))
   \<and> start_node (fst (projr
        (build_graph_from_request demo_registry Map.empty ''g1'' (demo_request [] ''zzz''))))
       \<notin> dom (nodes (fst (projr
        (build_graph_from_request demo_registry Map.empty ''g1'' (demo_request [] ''zzz'')))))"
  by (simp add: build_eval)

section \<open>The terminate sentinel\<close>

lemma sentinel_ends_loop:
  assumes "steps < max_steps g" and "nodes g x = Some f" and "f st = Inr (IsDict st')"
    and "edges g x = Some PNone
         \<or> (\<exists>d b. edges g x = Some (PDict d) \<and> dict_get d ''type'' = PStr ''conditional''
               \<and> evaluate_condition st' d = Inr b
               \<and> map_of d (if b then ''true'' else ''false'') = Some PNone)"
  shows "\<exists>steps'. run_loop g (PStr x) steps st lg = Inr (st', lg @ [x], steps')"
  using assms(4)
proof
  assume "edges g x = Some PNone"
  with assms(1-3) have "loop_body g (PStr x) st lg = Inr (Break st' (lg @ [x]))"
    by (simp add: loop_body_def call_node_def)
  with assms(1) show ?thesis by (simp add: run_loop.simps)
next
  assume "\<exists>d b. edges g x = Some (PDict d) \<and> dict_get d ''type'' = PStr ''conditional''
               \<and> evaluate_condition st' d = Inr b
               \<and> map_of d (if b then ''true'' else ''false'') = Some PNone"
  then obtain d b where d: "edges g x = Some (PDict d)" "dict_get d ''type'' = PStr ''conditional''"
     "evaluate_condition st' d = Inr b" "map_of d (if b then ''true'' else ''false'') = Some PNone"
    by blast
  with assms(1-3) have "loop_body g (PStr x) st lg = Inr (Continue PNone st' (lg @ [x]))"
    by (simp add: loop_body_def call_node_def)
  with assms(1) have "run_loop g (PStr x) steps st lg = run_loop g PNone (steps + 1) st' (lg @ [x])"
    by (simp add: run_loop.simps)
  then show ?thesis by (simp add: run_loop.simps)
qed

text \<open>
  Claim C3, as amended. In a construction request the terminate sentinel and a target
  left out are the same value, \<^verbatim>\<open>None\<close>. A normal edge whose target is \<^verbatim>\<open>None\<close> is
  rejected, and so is a conditional edge whose true and false targets are both
  \<^verbatim>\<open>None\<close> (HTTP 400). Construction succeeds exactly when every tool is registered and
  every edge is accepted: a conditional edge with key, operator and value is accepted with
  one branch target \<^verbatim>\<open>None\<close>. At run time, when the loop executes a node whose edge is
  the terminate sentinel (a \<^verbatim>\<open>None\<close> edge of a graph built directly, or a conditional
  edge whose selected branch is \<^verbatim>\<open>None\<close>), the run ends there with a result: the trace
  ends with that node and the final state is the state the node returned, plus the fields
  the engine adds.
\<close>

theorem terminate_sentinel_targets:
  "(e \<in> set (req_edges req) \<and> edge_type e = Normal \<and> target e = None
      \<longrightarrow> (\<exists>d. build_graph_from_request reg GRAPHS new_id req = Inl (HTTPException 400 d)))
   \<and> (e \<in> set (req_edges req) \<and> edge_type e = Conditional
         \<and> true_target e = None \<and> false_target e = None
      \<longrightarrow> (\<exists>d. build_graph_from_request reg GRAPHS new_id req = Inl (HTTPException 400 d)))
   \<and> ((\<exists>g' G'. build_graph_from_request reg GRAPHS new_id req = Inr (g', G'))
        = ((\<forall>n \<in> set (req_nodes req). reg (tool_name n) \<noteq> None)
           \<and> (\<forall>e \<in> set (req_edges req). edge_accepted e)))
   \<and> (loop_iters n g (initial_config g s) = Some (PStr x, steps, st, lg)
         \<and> steps < max_steps g \<and> nodes g x = Some f \<and> f st = Inr (IsDict st')
         \<and> (edges g x = Some PNone
            \<or> (\<exists>d b. edges g x = Some (PDict d) \<and> dict_get d ''type'' = PStr ''conditional''
                  \<and> evaluate_condition st' d = Inr b
                  \<and> map_of d (if b then ''true'' else ''false'') = Some PNone))
      \<longrightarrow> (\<exists>r. run_graph g s = Inr r \<and> log_list r = lg @ [x]
               \<and> (\<forall>k. k \<noteq> ''_warning'' \<and> k \<noteq> ''_execution_log''
                      \<longrightarrow> final_state r k = st' k)))"
proof (intro conjI)
  show "e \<in> set (req_edges req) \<and> edge_type e = Normal \<and> target e = None
      \<longrightarrow> (\<exists>d. build_graph_from_request reg GRAPHS new_id req = Inl (HTTPException 400 d))"
  proof
    assume a: "e \<in> set (req_edges req) \<and> edge_type e = Normal \<and> target e = None"
    then have "\<not> edge_accepted e" by (simp add: edge_accepted_def)
    with a build_graph_rejects
    show "\<exists>d. build_graph_from_request reg GRAPHS new_id req = Inl (HTTPException 400 d)"
      by blast
  qed
next
  show "e \<in> set (req_edges req) \<and> edge_type e = Conditional
         \<and> true_target e = None \<and> false_target e = None
      \<longrightarrow> (\<exists>d. build_graph_from_request reg GRAPHS new_id req = Inl (HTTPException 400 d))"
  proof
    assume a: "e \<in> set (req_edges req) \<and> edge_type e = Conditional
         \<and> true_target e = None \<and> false_target e = None"
    then have "\<not> edge_accepted e" by (simp add: edge_accepted_def)
    with a build_graph_rejects
    show "\<exists>d. build_graph_from_request reg GRAPHS new_id req = Inl (HTTPException 400 d)"
      by blast
  qed
next
  show "(\<exists>g' G'. build_graph_from_request reg GRAPHS new_id req = Inr (g', G'))
        = ((\<forall>n \<in> set (req_nodes req). reg (tool_name n) \<noteq> None)
           \<and> (\<forall>e \<in> set (req_edges req). edge_accepted e))"
    by (rule build_graph_accepts)
next
  show "loop_iters n g (initial_config g s) = Some (PStr x, steps, st, lg)
         \<and> steps < max_steps g \<and> nodes g x = Some f \<and> f st = Inr (IsDict st')
         \<and> (edges g x = Some PNone
            \<or> (\<exists>d b. edges g x = Some (PDict d) \<and> dict_get d ''type'' = PStr ''conditional''
                  \<and> evaluate_condition st' d = Inr b
                  \<and> map_of d (if b then ''true'' else ''false'') = Some PNone))
      \<longrightarrow> (\<exists>r. run_graph g s = Inr r \<and> log_list r = lg @ [x]
               \<and> (\<forall>k. k \<noteq> ''_warning'' \<and> k \<noteq> ''_execution_log''
                      \<longrightarrow> final_state r k = st' k))"
  proof
    assume a: "loop_iters n g (initial_config g s) = Some (PStr x, steps, st, lg)
         \<and> steps < max_steps g \<and> nodes g x = Some f \<and> f st = Inr (IsDict st')
         \<and> (edges g x = Some PNone
            \<or> (\<exists>d b. edges g x = Some (PDict d) \<and> dict_get d ''type'' = PStr ''conditional''
                  \<and> evaluate_condition st' d = Inr b
                  \<and> map_of d (if b then ''true'' else ''false'') = Some PNone))"
    then have "loop_iters n g (PStr (start_node g), 0, s, []) = Some (PStr x, steps, st, lg)"
      by (simp add: initial_config_def)
    from loop_iters_run_loop [OF this]
    have "run_loop g (PStr (start_node g)) 0 s [] = run_loop g (PStr x) steps st lg"
      by simp
    moreover from a sentinel_ends_loop [of steps g x f st st' lg]
    obtain steps' where "run_loop g (PStr x) steps st lg = Inr (st', lg @ [x], steps')"
      by blast
    ultimately have "run_loop g (PStr (start_node g)) 0 s [] = Inr (st', lg @ [x], steps')"
      by simp
    then show "\<exists>r. run_graph g s = Inr r \<and> log_list r = lg @ [x]
               \<and> (\<forall>k. k \<noteq> ''_warning'' \<and> k \<noteq> ''_execution_log''
                      \<longrightarrow> final_state r k = st' k)"
      by (simp add: run_graph_def Let_def)
  qed
qed

theorem terminate_sentinel_targets_witness:
  "build_graph_from_request demo_registry Map.empty ''g1''
       (demo_request [normal_edge ''a'' (Some ''b''), normal_edge ''b'' None] ''a'')
     = Inl (HTTPException 400 (NormalEdgeNoTarget ''b''))
   \<and> build_graph_from_request demo_registry Map.empty ''g1''
       (demo_request [count_edge ''a'' None None] ''a'')
     = Inl (HTTPException 400 (ConditionalNoTarget ''a''))
   \<and> edge_accepted (count_edge ''a'' None (Some ''a''))
   \<and> \<not> isl (build_graph_from_request demo_registry Map.empty ''g1''
               (demo_request [count_edge ''a'' None (Some ''a'')] ''a''))
   \<and> loop_iters (Suc (Suc 0)) (scenario_B 100) (initial_config (scenario_B 100) Map.empty)
       = Some (PStr ''a'', 2, [''count'' \<mapsto> PInt 2], [''a'', ''a''])
   \<and> map_sum id log_list (run_graph (scenario_B 100) Map.empty) = Inr [''a'', ''a'', ''a'']
   \<and> loop_iters (Suc (Suc 0)) scenario_A (initial_config scenario_A Map.empty)
       = Some (PStr ''c'', 2, [''a'' \<mapsto> PBool True, ''b'' \<mapsto> PBool True], [''a'', ''b''])
   \<and> edges scenario_A ''c'' = Some PNone
   \<and> map_sum id log_list (run_graph scenario_A Map.empty) = Inr [''a'', ''b'', ''c'']"
proof -
  let ?r1 = "demo_request [normal_edge ''a'' (Some ''b''), normal_edge ''b'' None] ''a''"
  let ?r2 = "demo_request [count_edge ''a'' None None] ''a''"
  let ?r3 = "demo_request [count_edge ''a'' None (Some ''a'')] ''a''"
  let ?d = "[(''type'', PStr ''conditional''), (''key'', PStr ''count''),
             (''op'', PStr ''>=''), (''value'', PInt 3),
             (''true'', PNone), (''false'', PStr ''a'')]"
  have b1: "build_graph_from_request demo_registry Map.empty ''g1'' ?r1
     = Inl (HTTPException 400 (NormalEdgeNoTarget ''b''))"
    by (simp add: build_eval)
  have b2: "build_graph_from_request demo_registry Map.empty ''g1'' ?r2
     = Inl (HTTPException 400 (ConditionalNoTarget ''a''))"
    by (simp add: build_eval)
  have b3: "edge_accepted (count_edge ''a'' None (Some ''a''))"
    by (simp add: build_eval)
  have b4: "\<not> isl (build_graph_from_request demo_registry Map.empty ''g1'' ?r3)"
    by (simp add: build_eval)
  have in1: "normal_edge ''b'' None \<in> set (req_edges ?r1)
      \<and> edge_type (normal_edge ''b'' None) = Normal \<and> target (normal_edge ''b'' None) = None"
    by (simp add: demo_request_def normal_edge_def)
  have in2: "count_edge ''a'' None None \<in> set (req_edges ?r2)
      \<and> edge_type (count_edge ''a'' None None) = Conditional
      \<and> true_target (count_edge ''a'' None None) = None
      \<and> false_target (count_edge ''a'' None None) = None"
    by (simp add: demo_request_def count_edge_def)
  have itB: "loop_iters (Suc (Suc 0)) (scenario_B 100) (initial_config (scenario_B 100) Map.empty)
       = Some (PStr ''a'', 2, [''count'' \<mapsto> PInt 2], [''a'', ''a''])"
    by (simp add: run_eval scenario_B_def)
  have hypB: "2 < max_steps (scenario_B 100) \<and> nodes (scenario_B 100) ''a'' = Some step_incr
      \<and> step_incr [''count'' \<mapsto> PInt 2] = Inr (IsDict [''count'' \<mapsto> PInt 3])
      \<and> edges (scenario_B 100) ''a'' = Some (PDict ?d)
      \<and> dict_get ?d ''type'' = PStr ''conditional''
      \<and> evaluate_condition [''count'' \<mapsto> PInt 3] ?d = Inr True
      \<and> map_of ?d (if True then ''true'' else ''false'') = Some PNone"
    by (simp add: run_eval scenario_B_def)
  have itA: "loop_iters (Suc (Suc 0)) scenario_A (initial_config scenario_A Map.empty)
       = Some (PStr ''c'', 2, [''a'' \<mapsto> PBool True, ''b'' \<mapsto> PBool True], [''a'', ''b''])"
    by (simp add: run_eval scenario_A_def)
  have hypA: "2 < max_steps scenario_A \<and> nodes scenario_A ''c'' = Some (step_mark ''c'')
      \<and> step_mark ''c'' [''a'' \<mapsto> PBool True, ''b'' \<mapsto> PBool True]
          = Inr (IsDict [''a'' \<mapsto> PBool True, ''b'' \<mapsto> PBool True, ''c'' \<mapsto> PBool True])
      \<and> edges scenario_A ''c'' = Some PNone"
    by (simp add: scenario_A_def step_mark_def)
  note tB = terminate_sentinel_targets
         [of "normal_edge ''b'' None" ?r1 demo_registry Map.empty "''g1''"
             "Suc (Suc 0)" "scenario_B 100" Map.empty "''a''" 2 "[''count'' \<mapsto> PInt 2]"
             "[''a'', ''a'']" step_incr "[''count'' \<mapsto> PInt 3]"]
  note tA = terminate_sentinel_targets
         [of "count_edge ''a'' None None" ?r2 demo_registry Map.empty "''g1''"
             "Suc (Suc 0)" scenario_A Map.empty "''c''" 2
             "[''a'' \<mapsto> PBool True, ''b'' \<mapsto> PBool True]"
             "[''a'', ''b'']" "step_mark ''c''"
             "[''a'' \<mapsto> PBool True, ''b'' \<mapsto> PBool True, ''c'' \<mapsto> PBool True]"]
  have "\<exists>d. build_graph_from_request demo_registry Map.empty ''g1'' ?r1
             = Inl (HTTPException 400 d)"
    by (rule tB [THEN conjunct1, THEN mp]) (rule in1)
  have "\<exists>d. build_graph_from_request demo_registry Map.empty ''g1'' ?r2
             = Inl (HTTPException 400 d)"
    by (rule tA [THEN conjunct2, THEN conjunct1, THEN mp]) (rule in2)
  have rB: "\<exists>r. run_graph (scenario_B 100) Map.empty = Inr r
              \<and> log_list r = [''a'', ''a''] @ [''a'']
              \<and> (\<forall>k. k \<noteq> ''_warning'' \<and> k \<noteq> ''_execution_log''
                     \<longrightarrow> final_state r k = [''count'' \<mapsto> PInt 3] k)"
  proof (rule tB [THEN conjunct2, THEN conjunct2, THEN conjunct2, THEN mp])
    from hypB have "\<exists>d b. edges (scenario_B 100) ''a'' = Some (PDict d)
          \<and> dict_get d ''type'' = PStr ''conditional''
          \<and> evaluate_condition [''count'' \<mapsto> PInt 3] d = Inr b
          \<and> map_of d (if b then ''true'' else ''false'') = Some PNone"
      by (intro exI [of _ ?d] exI [of _ True]) simp
    with itB hypB
    show "loop_iters (Suc (Suc 0)) (scenario_B 100) (initial_config (scenario_B 100) Map.empty)
            = Some (PStr ''a'', 2, [''count'' \<mapsto> PInt 2], [''a'', ''a''])
          \<and> 2 < max_steps (scenario_B 100) \<and> nodes (scenario_B 100) ''a'' = Some step_incr
          \<and> step_incr [''count'' \<mapsto> PInt 2] = Inr (IsDict [''count'' \<mapsto> PInt 3])
          \<and> (edges (scenario_B 100) ''a'' = Some PNone
             \<or> (\<exists>d b. edges (scenario_B 100) ''a'' = Some (PDict d)
                  \<and> dict_get d ''type'' = PStr ''conditional''
                  \<and> evaluate_condition [''count'' \<mapsto> PInt 3] d = Inr b
                  \<and> map_of d (if b then ''true'' else ''false'') = Some PNone))"
      by (intro conjI disjI2) (rule itB, simp_all only: simp_thms)
  qed
  have rA: "\<exists>r. run_graph scenario_A Map.empty = Inr r
              \<and> log_list r = [''a'', ''b''] @ [''c'']
              \<and> (\<forall>k. k \<noteq> ''_warning'' \<and> k \<noteq> ''_execution_log''
                     \<longrightarrow> final_state r k
                         = [''a'' \<mapsto> PBool True, ''b'' \<mapsto> PBool True, ''c'' \<mapsto> PBool True] k)"
  proof (rule tA [THEN conjunct2, THEN conjunct2, THEN conjunct2, THEN mp])
    from itA hypA
    show "loop_iters (Suc (Suc 0)) scenario_A (initial_config scenario_A Map.empty)
            = Some (PStr ''c'', 2, [''a'' \<mapsto> PBool True, ''b'' \<mapsto> PBool True], [''a'', ''b''])
          \<and> 2 < max_steps scenario_A \<and> nodes scenario_A ''c'' = Some (step_mark ''c'')
          \<and> step_mark ''c'' [''a'' \<mapsto> PBool True, ''b'' \<mapsto> PBool True]
              = Inr (IsDict [''a'' \<mapsto> PBool True, ''b'' \<mapsto> PBool True, ''c'' \<mapsto> PBool True])
          \<and> (edges scenario_A ''c'' = Some PNone
             \<or> (\<exists>d b. edges scenario_A ''c'' = Some (PDict d)
                  \<and> dict_get d ''type'' = PStr ''conditional''
                  \<and> evaluate_condition
                        [''a'' \<mapsto> PBool True, ''b'' \<mapsto> PBool True, ''c'' \<mapsto> PBool True] d = Inr b
                  \<and> map_of d (if b then ''true'' else ''false'') = Some PNone))"
      by (intro conjI disjI1) (rule itA, simp_all only: simp_thms)
  qed
  have lB: "map_sum id log_list (run_graph (scenario_B 100) Map.empty) = Inr [''a'', ''a'', ''a'']"
  proof -
    from rB obtain r where r: "run_graph (scenario_B 100) Map.empty = Inr r"
      and l: "log_list r = [''a'', ''a''] @ [''a'']"
      by (elim exE conjE) (rule that)
    show ?thesis by (simp add: r l)
  qed
  have lA: "map_sum id log_list (run_graph scenario_A Map.empty) = Inr [''a'', ''b'', ''c'']"
  proof -
    from rA obtain r where r: "run_graph scenario_A Map.empty = Inr r"
      and l: "log_list r = [''a'', ''b''] @ [''c'']"
      by (elim exE conjE) (rule that)
    show ?thesis by (simp add: r l)
  qed
  from b1 b2 b3 b4 itB lB itA hypA lA show ?thesis by (intro conjI) simp_all
qed

text \<open>
  The claim as stated fails: a normal edge to the terminate sentinel, and a conditional
  edge with both branches the terminate sentinel, are each rejected by construction.
\<close>

theorem terminate_sentinel_counterexample:
  "build_graph_from_request demo_registry Map.empty ''g1''
       (demo_request [normal_edge ''a'' None] ''a'')
     = Inl (HTTPException 400 (NormalEdgeNoTarget ''a''))
   \<and> build_graph_from_request demo_registry Map.empty ''g1''
       (demo_request [count_edge ''a'' None None] ''a'')
     = Inl (HTTPException 400 (ConditionalNoTarget ''a''))"
  by (simp add: build_eval)

end
